theory Spec2Isabelle
  imports Complex_Main "HOL-Library.Word"
begin

section \<open>The memcached loader: data model\<close>

text \<open>
  The program reads gzip-compressed, tab-separated logs of installed applications and
  writes every record to one of four memcached instances, chosen by the device type.
  The embedding follows \<^verbatim>\<open>main.go\<close>: \<^verbatim>\<open>parseLine\<close> is a pure function, the goroutines of
  \<^verbatim>\<open>readFile\<close> and \<^verbatim>\<open>writeInMemcached\<close> are program counters stepped by a scheduler, and
  the channels, the statistics map, the logger and the file system are the shared state.

  Go strings are byte sequences and so are HOL strings. The counters of type \<^verbatim>\<open>int\<close>
  count lines of one file and are far from the 64-bit range: they are modelled as
  \<^typ>\<open>int\<close>. Floating-point values are the rationals a binary64 can hold, with the
  rounding of every operation written out.
\<close>

subsection \<open>binary64\<close>

datatype float64 = Finite rat | PosInf | NegInf | NaN

text \<open>The number of binary digits of a natural number.\<close>

fun bitlen :: "nat \<Rightarrow> nat" where
  "bitlen n = (if n = 0 then 0 else Suc (bitlen (n div 2)))"

declare bitlen.simps [simp del]

text \<open>\<open>2 ^ k\<close> for an integer exponent, as a rational.\<close>

definition pow2 :: "int \<Rightarrow> rat" where
  "pow2 k = (if 0 \<le> k then 2 ^ nat k else 1 / 2 ^ nat (- k))"

text \<open>
  The binary exponent of a positive rational \<open>a / b\<close>: the \<open>e\<close> with
  \<open>2 ^ e \<le> a / b < 2 ^ (e + 1)\<close>. The bit lengths give it up to one.
\<close>

definition ilog2 :: "nat \<Rightarrow> nat \<Rightarrow> int" where
  "ilog2 a b =
     (let d = int (bitlen a) - int (bitlen b)
      in if pow2 d * of_int (int b) \<le> of_int (int a) then d else d - 1)"

text \<open>Rounding a non-negative fraction \<open>a / b\<close> to the nearest integer, ties to even.\<close>

definition round_even :: "nat \<Rightarrow> nat \<Rightarrow> nat" where
  "round_even a b =
     (let q = a div b; r = a mod b
      in if 2 * r < b then q
         else if b < 2 * r then q + 1
         else if even q then q else q + 1)"

text \<open>
  Rounding the rational \<open>n / d\<close> (\<open>d > 0\<close>) to binary64, to nearest with ties to even:
  53 significant bits, exponents from \<open>-1022\<close> (below it the spacing stays \<open>2 ^ -1074\<close>),
  and infinity from \<open>2 ^ 1024\<close> on.
\<close>

definition round64 :: "int \<Rightarrow> nat \<Rightarrow> float64" where
  "round64 n d =
     (if n = 0 \<or> d = 0 then Finite 0
      else
        let a = nat \<bar>n\<bar>;
            e = max (ilog2 a d) (- 1022) - 52;
            m = (if 0 \<le> e then round_even a (d * 2 ^ nat e)
                 else round_even (a * 2 ^ nat (- e)) d);
            r = of_int (int m) * pow2 e
        in if 2 ^ 1024 \<le> r then (if n < 0 then NegInf else PosInf)
           else Finite (if n < 0 then - r else r))"

text \<open>The conversion \<^verbatim>\<open>float64(n)\<close> of an integer.\<close>

definition float64_of_int :: "int \<Rightarrow> float64" where
  "float64_of_int n = round64 n 1"

text \<open>
  Division and comparison of binary64 values. Zero carries no sign in this model; every
  zero of the program comes from an integer and is positive, so \<open>x / 0\<close> has the sign
  of \<open>x\<close>.
\<close>

fun fdiv :: "float64 \<Rightarrow> float64 \<Rightarrow> float64" where
  "fdiv NaN _ = NaN"
| "fdiv _ NaN = NaN"
| "fdiv (Finite x) (Finite y) =
     (if y = 0 then (if x = 0 then NaN else if x < 0 then NegInf else PosInf)
      else (let (a, b) = quotient_of x; (c, d) = quotient_of y
            in if c < 0 then round64 (- (a * d)) (nat (b * (- c)))
               else round64 (a * d) (nat (b * c))))"
| "fdiv (Finite x) _ = Finite 0"
| "fdiv PosInf (Finite y) = (if y < 0 then NegInf else PosInf)"
| "fdiv NegInf (Finite y) = (if y < 0 then PosInf else NegInf)"
| "fdiv _ _ = NaN"

fun flt :: "float64 \<Rightarrow> float64 \<Rightarrow> bool" where
  "flt NaN _ = False"
| "flt _ NaN = False"
| "flt (Finite x) (Finite y) = (x < y)"
| "flt (Finite x) PosInf = True"
| "flt (Finite x) NegInf = False"
| "flt PosInf _ = False"
| "flt NegInf NegInf = False"
| "flt NegInf _ = True"

subsection \<open>The standard library: \<^verbatim>\<open>strings.Split\<close>, \<^verbatim>\<open>strconv.Atoi\<close>, \<^verbatim>\<open>strconv.ParseFloat\<close>\<close>

text \<open>
  \<^verbatim>\<open>strings.Split(s, sep)\<close> with a separator of one byte: the pieces of \<open>s\<close> between the
  separators, one more than there are separators (so one empty piece for the empty
  string).
\<close>

fun Split :: "string \<Rightarrow> char \<Rightarrow> string list" where
  "Split [] sep = ['''']"
| "Split (c # s) sep =
     (if c = sep then [] # Split s sep
      else (case Split s sep of [] \<Rightarrow> [c] # [] | p # ps \<Rightarrow> (c # p) # ps))"

datatype num_error = ErrSyntax | ErrRange

definition digit :: "char \<Rightarrow> nat option" where
  "digit c = (let n = (of_char c :: nat) in if 48 \<le> n \<and> n \<le> 57 then Some (n - 48) else None)"

text \<open>
  The digit loop of \<^verbatim>\<open>strconv.ParseUint(s, 10, 64)\<close>: a byte that is no decimal digit is a
  syntax error with value 0, and the first digit that takes the value beyond
  \<open>2 ^ 64 - 1\<close> ends the loop with that maximum and a range error.
\<close>

fun ParseUint_digits :: "nat \<Rightarrow> string \<Rightarrow> nat \<times> num_error option" where
  "ParseUint_digits n [] = (n, None)"
| "ParseUint_digits n (c # s) =
     (case digit c of
        None \<Rightarrow> (0, Some ErrSyntax)
      | Some d \<Rightarrow>
          if 2 ^ 64 - 1 < n * 10 + d then (2 ^ 64 - 1, Some ErrRange)
          else ParseUint_digits (n * 10 + d) s)"

definition ParseUint :: "string \<Rightarrow> nat \<times> num_error option" where
  "ParseUint s = (if s = [] then (0, Some ErrSyntax) else ParseUint_digits 0 s)"

text \<open>
  \<^verbatim>\<open>strconv.ParseInt(s, 10, 0)\<close> on a 64-bit platform: an optional sign, then
  \<^verbatim>\<open>ParseUint\<close>; a value out of range is returned as the largest magnitude of its sign,
  with a range error.
\<close>

definition ParseInt :: "string \<Rightarrow> int \<times> num_error option" where
  "ParseInt s =
     (case s of
        [] \<Rightarrow> (0, Some ErrSyntax)
      | c # t \<Rightarrow>
          let neg = (c = CHR ''-'');
              (un, err) = ParseUint (if c = CHR ''+'' \<or> c = CHR ''-'' then t else s)
          in if err = Some ErrSyntax then (0, err)
             else if \<not> neg \<and> 2 ^ 63 \<le> un then (2 ^ 63 - 1, Some ErrRange)
             else if neg \<and> 2 ^ 63 < un then (- (2 ^ 63), Some ErrRange)
             else (if neg then - int un else int un, None))"

text \<open>\<^verbatim>\<open>strconv.Atoi(s)\<close> is \<^verbatim>\<open>ParseInt(s, 10, 0)\<close> converted to \<^verbatim>\<open>int\<close>.\<close>

definition Atoi :: "string \<Rightarrow> int \<times> num_error option" where
  "Atoi s = ParseInt s"

text \<open>
  \<^verbatim>\<open>strconv.ParseFloat(s, 64)\<close> is not part of the program: how it reads a text is a
  parameter of the model, of type \<open>string \<Rightarrow> float_parse\<close>. What it returns in each case
  is the library's contract: the number, or 0 with a syntax error, or the infinity of
  the text's sign with a range error.
\<close>

datatype float_parse = Parsed float64 | SyntaxError | RangeError bool

fun float_parse_value :: "float_parse \<Rightarrow> float64" where
  "float_parse_value (Parsed f) = f"
| "float_parse_value SyntaxError = Finite 0"
| "float_parse_value (RangeError neg) = (if neg then NegInf else PosInf)"

subsection \<open>\<^verbatim>\<open>parseLine\<close>\<close>

record appsInstalled =
  DevType :: string
  DevId :: string
  Lat :: float64
  Lon :: float64
  Apps :: "32 word list"
  FileName :: string

datatype error = ErrParseLine

abbreviation TAB :: char where
  "TAB \<equiv> CHR 0x09"

text \<open>
  Lines 37 to 64. The errors of \<^verbatim>\<open>Atoi\<close> and \<^verbatim>\<open>ParseFloat\<close> are dropped and the values
  they return are kept; \<^verbatim>\<open>uint32(val32)\<close> keeps the low 32 bits. Both \<^verbatim>\<open>lat\<close> and
  \<^verbatim>\<open>lon\<close> are read from \<^verbatim>\<open>lineParts[2]\<close>.
\<close>

definition parseLine :: "(string \<Rightarrow> float_parse) \<Rightarrow> string \<Rightarrow> string \<Rightarrow> appsInstalled \<times> error option" where
  "parseLine ParseFloat line filename =
     (let lineParts = Split line TAB
      in if length lineParts \<noteq> 5
         then (\<lparr>DevType = [], DevId = [], Lat = Finite 0, Lon = Finite 0, Apps = [0],
                FileName = filename\<rparr>, Some ErrParseLine)
         else if lineParts ! 0 = [] \<or> lineParts ! 1 = []
         then (\<lparr>DevType = [], DevId = [], Lat = Finite 0, Lon = Finite 0, Apps = [0],
                FileName = filename\<rparr>, Some ErrParseLine)
         else
           let strApps = Split (lineParts ! 4) (CHR '','');
               apps = map (\<lambda>val. word_of_int (fst (Atoi val))) strApps;
               lat = float_parse_value (ParseFloat (lineParts ! 2));
               lon = float_parse_value (ParseFloat (lineParts ! 2))
           in (\<lparr>DevType = lineParts ! 0, DevId = lineParts ! 1, Lat = lat, Lon = lon,
                Apps = apps, FileName = filename\<rparr>, None))"

subsection \<open>The statistics of the files\<close>

text \<open>
  The field \<^verbatim>\<open>stats\<close> of \<^verbatim>\<open>fileStats\<close> is a Go map: \<open>None\<close> is the nil map of the zero
  value, \<open>Some m\<close> an allocated one. Both operations run under the mutex and are atomic.

  Lines 106 to 109, in \<^verbatim>\<open>readFile\<close>: reading a key that is absent (or any key of a nil
  map) gives 0, and \<^verbatim>\<open>delete\<close> does nothing then.
\<close>

type_synonym fileStats = "(string \<rightharpoonup> int) option"

definition TakeAndClear :: "fileStats \<Rightarrow> string \<Rightarrow> int \<times> fileStats" where
  "TakeAndClear st filename =
     (case st of
        None \<Rightarrow> (0, None)
      | Some m \<Rightarrow> ((case m filename of None \<Rightarrow> 0 | Some n \<Rightarrow> n), Some (m(filename := None))))"

text \<open>
  Lines 158 to 160, in \<^verbatim>\<open>writeInMemcached\<close>: \<^verbatim>\<open>stats.stats[val.FileName] += 1\<close>. The
  assignment to an entry of a nil map panics: the result is \<open>None\<close> then.
\<close>

definition RecordFailure :: "fileStats \<Rightarrow> string \<Rightarrow> fileStats option" where
  "RecordFailure st filename =
     (case st of
        None \<Rightarrow> None
      | Some m \<Rightarrow> Some (Some (m(filename \<mapsto> (case m filename of None \<Rightarrow> 0 | Some n \<Rightarrow> n) + 1))))"

subsection \<open>The verdict on a file\<close>

text \<open>\<^verbatim>\<open>var NormalErrRate = 0.01\<close>: the constant 0.01 rounded to binary64.\<close>

definition NormalErrRate :: float64 where
  "NormalErrRate = round64 1 100"

text \<open>The three messages of lines 114, 118 and 120.\<close>

datatype disposition = AllErrors | Acceptable float64 | HighErrorRate float64

text \<open>Lines 111 to 122.\<close>

definition reconcile :: "int \<Rightarrow> int \<Rightarrow> int \<Rightarrow> disposition" where
  "reconcile nSuccess0 nErrors0 nSendingErrors =
     (let nErrors = nErrors0 + nSendingErrors;
          nSuccess = nSuccess0 - nSendingErrors
      in if nSuccess = 0 then AllErrors
         else
           let errRate = fdiv (float64_of_int nErrors) (float64_of_int nSuccess)
           in if flt errRate NormalErrRate then Acceptable errRate
              else HighErrorRate errRate)"

text \<open>"Successful load" is logged with the acceptable rate only; the other two say "Failed load".\<close>

fun successful :: "disposition \<Rightarrow> bool" where
  "successful (Acceptable r) = True"
| "successful AllErrors = False"
| "successful (HighErrorRate r) = False"

text \<open>
  \<^verbatim>\<open>filepath.Split\<close> on a system whose separator is the slash: the directory ends with the
  last slash of the path, the file name is what follows.
\<close>

definition filepath_Split :: "string \<Rightarrow> string \<times> string" where
  "filepath_Split path =
     (let fn = rev (takeWhile (\<lambda>c. c \<noteq> CHR ''/'') (rev path))
      in (take (length path - length fn) path, fn))"

text \<open>Lines 124 and 125: the new name of a file, \<^verbatim>\<open>fmt.Sprintf("%s/.%s", dir, fn)\<close>.\<close>

definition archiveName :: "string \<Rightarrow> string" where
  "archiveName filename = (let (dir, fn) = filepath_Split filename in dir @ ''/.'' @ fn)"

section \<open>The process\<close>

subsection \<open>State\<close>

text \<open>
  What the operating system answers for one file: whether \<^verbatim>\<open>os.Open\<close> and
  \<^verbatim>\<open>gzip.NewReader\<close> succeed, the lines the scanner yields, whether the scanner stops
  on an error, and whether \<^verbatim>\<open>os.Rename\<close> succeeds.
\<close>

record input_file =
  canOpen :: bool
  canGunzip :: bool
  content :: "string list"
  scanFails :: bool
  canRename :: bool

record config =
  channelSize :: int
  maxRetry :: int
  ParseFloat :: "string \<Rightarrow> float_parse"
  fsys :: "string \<Rightarrow> input_file"

datatype logmsg =
    LogFatal string
  | LogParseLine
  | LogScannerError
  | LogDisposition disposition
  | LogRename string
  | LogSendingFailed
  | LogSet string
  | LogStartReadFile

text \<open>
  The goroutine of \<^verbatim>\<open>readFile\<close>, by the line it is about to run, with its local
  variables: the lines not yet scanned, \<^verbatim>\<open>nSuccess\<close>, \<^verbatim>\<open>nErrors\<close>, the record being sent
  and \<^verbatim>\<open>nSendingErrors\<close>. At \<open>R_Exit\<close> the goroutine is inside \<^verbatim>\<open>logger.Fatal\<close> (line 76 or 81):
  the message is written and \<^verbatim>\<open>os.Exit(1)\<close> is the call to come.
\<close>

datatype reader =
    R_Open
  | R_Gzip
  | R_Exit
  | R_Scan "string list" int int
  | R_Send appsInstalled "string list" int int
  | R_Stats int int
  | R_Reconcile int int int
  | R_Rename
  | R_Done

text \<open>
  The goroutine of \<^verbatim>\<open>writeInMemcached\<close>: receiving (line 142), in the retry loop with
  \<^verbatim>\<open>val\<close>, \<^verbatim>\<open>i\<close> and whether \<^verbatim>\<open>err\<close> is set (line 148), or after the loop (line 156).
\<close>

datatype writer =
    W_Recv
  | W_Set appsInstalled int bool
  | W_Stats appsInstalled bool

datatype status = Running | Exited int | Panicked

text \<open>
  The process: the statistics map, the buffered contents of the channels by device type,
  the goroutines by file name and by device type, the counter of the wait group, the
  log, the calls of \<^verbatim>\<open>os.Rename\<close> (old name, new name, success) and of
  \<^verbatim>\<open>memClient.Set\<close> (device type, key, failure), and whether the process still runs.
\<close>

record proc =
  stats :: fileStats
  channels :: "string \<rightharpoonup> appsInstalled list"
  readers :: "string \<rightharpoonup> reader"
  writers :: "string \<rightharpoonup> writer"
  wg :: int
  logger :: "logmsg list"
  renameCalls :: "(string \<times> string \<times> bool) list"
  setCalls :: "(string \<times> string \<times> bool) list"
  status :: status

subsection \<open>\<^verbatim>\<open>main\<close>\<close>

definition devices :: "string list" where
  "devices = [''idfa'', ''gaid'', ''adid'', ''dvid'']"

text \<open>
  Lines 192 to 221, for the file names that \<^verbatim>\<open>filepath.Glob\<close> returned (they are
  distinct): \<^verbatim>\<open>stats := fileStats{}\<close> leaves the map nil, every device type gets a
  channel and a writer, every file a reader. \<^verbatim>\<open>make\<close> panics on a negative size.
\<close>

definition main_init :: "config \<Rightarrow> string list \<Rightarrow> proc" where
  "main_init cfg fileNames =
     (if channelSize cfg < 0
      then \<lparr>stats = None, channels = Map.empty, readers = Map.empty, writers = Map.empty,
            wg = 0, logger = [], renameCalls = [], setCalls = [], status = Panicked\<rparr>
      else \<lparr>stats = None,
            channels = map_of (map (\<lambda>d. (d, [])) devices),
            readers = map_of (map (\<lambda>fn. (fn, R_Open)) fileNames),
            writers = map_of (map (\<lambda>d. (d, W_Recv)) devices),
            wg = int (length fileNames),
            logger = map (\<lambda>fn. LogStartReadFile) fileNames,
            renameCalls = [], setCalls = [], status = Running\<rparr>)"

subsection \<open>One step of \<^verbatim>\<open>readFile\<close>\<close>

text \<open>
  \<open>None\<close> is a goroutine that cannot move: it is blocked, or it has returned.
  \<^verbatim>\<open>logger.Fatal\<close> is \<^verbatim>\<open>Output\<close> followed by \<^verbatim>\<open>os.Exit(1)\<close>, and it is two steps here: the
  first writes the message, the second ends the process, and the other goroutines may
  move between the two. A send on the nil channel that the map gives for an unknown
  device type blocks forever; a send on a channel without buffer needs the writer at its
  receive.
\<close>

fun readFile_step :: "config \<Rightarrow> string \<Rightarrow> reader \<Rightarrow> proc \<Rightarrow> proc option" where
  "readFile_step cfg filename R_Open s =
     (if canOpen (fsys cfg filename)
      then Some (s\<lparr>readers := (readers s)(filename \<mapsto> R_Gzip)\<rparr>)
      else Some (s\<lparr>readers := (readers s)(filename \<mapsto> R_Exit),
                   logger := logger s @ [LogFatal filename]\<rparr>))"
| "readFile_step cfg filename R_Gzip s =
     (if canGunzip (fsys cfg filename)
      then Some (s\<lparr>readers := (readers s)(filename \<mapsto> R_Scan (content (fsys cfg filename)) 0 0)\<rparr>)
      else Some (s\<lparr>readers := (readers s)(filename \<mapsto> R_Exit),
                   logger := logger s @ [LogFatal filename]\<rparr>))"
| "readFile_step cfg filename R_Exit s = Some (s\<lparr>status := Exited 1\<rparr>)"
| "readFile_step cfg filename (R_Scan [] nSuccess nErrors) s =
     Some (s\<lparr>readers := (readers s)(filename \<mapsto> R_Stats nSuccess nErrors),
             logger := logger s @ (if scanFails (fsys cfg filename) then [LogScannerError] else [])\<rparr>)"
| "readFile_step cfg filename (R_Scan (text # rest) nSuccess nErrors) s =
     (case parseLine (ParseFloat cfg) text filename of
        (apps, Some err) \<Rightarrow>
          Some (s\<lparr>readers := (readers s)(filename \<mapsto> R_Scan rest nSuccess (nErrors + 1)),
                  logger := logger s @ [LogParseLine]\<rparr>)
      | (apps, None) \<Rightarrow>
          Some (s\<lparr>readers := (readers s)(filename \<mapsto> R_Send apps rest (nSuccess + 1) nErrors)\<rparr>))"
| "readFile_step cfg filename (R_Send apps rest nSuccess nErrors) s =
     (case channels s (DevType apps) of
        None \<Rightarrow> None
      | Some buf \<Rightarrow>
          if channelSize cfg = 0
          then (if writers s (DevType apps) = Some W_Recv
                then Some (s\<lparr>readers := (readers s)(filename \<mapsto> R_Scan rest nSuccess nErrors),
                             writers := (writers s)(DevType apps \<mapsto> W_Set apps 0 False)\<rparr>)
                else None)
          else if int (length buf) < channelSize cfg
          then Some (s\<lparr>readers := (readers s)(filename \<mapsto> R_Scan rest nSuccess nErrors),
                       channels := (channels s)(DevType apps \<mapsto> buf @ [apps])\<rparr>)
          else None)"
| "readFile_step cfg filename (R_Stats nSuccess nErrors) s =
     (let (nSendingErrors, st) = TakeAndClear (stats s) filename
      in Some (s\<lparr>readers := (readers s)(filename \<mapsto> R_Reconcile nSuccess nErrors nSendingErrors),
                 stats := st\<rparr>))"
| "readFile_step cfg filename (R_Reconcile nSuccess nErrors nSendingErrors) s =
     Some (s\<lparr>readers := (readers s)(filename \<mapsto> R_Rename),
             logger := logger s @ [LogDisposition (reconcile nSuccess nErrors nSendingErrors)]\<rparr>)"
| "readFile_step cfg filename R_Rename s =
     (let ok = canRename (fsys cfg filename)
      in Some (s\<lparr>readers := (readers s)(filename \<mapsto> R_Done),
                 renameCalls := renameCalls s @ [(filename, archiveName filename, ok)],
                 logger := logger s @ (if ok then [] else [LogRename filename]),
                 wg := wg s - 1\<rparr>))"
| "readFile_step cfg filename R_Done s = None"

subsection \<open>One step of \<^verbatim>\<open>writeInMemcached\<close>\<close>

text \<open>
  The second argument of a step in the loop is what \<^verbatim>\<open>memClient.Set\<close> answers, should the
  step call it: \<open>True\<close> is an error. A panic of the goroutine ends the process.
\<close>

fun writeInMemcached_step :: "config \<Rightarrow> string \<Rightarrow> bool \<Rightarrow> writer \<Rightarrow> proc \<Rightarrow> proc option" where
  "writeInMemcached_step cfg device fails W_Recv s =
     (case channels s device of
        None \<Rightarrow> None
      | Some [] \<Rightarrow> None
      | Some (val # buf) \<Rightarrow>
          Some (s\<lparr>channels := (channels s)(device \<mapsto> buf),
                  writers := (writers s)(device \<mapsto> W_Set val 0 False)\<rparr>))"
| "writeInMemcached_step cfg device fails (W_Set val i err) s =
     (if i < maxRetry cfg
      then Some (s\<lparr>setCalls := setCalls s @ [(device, DevType val @ '':'' @ DevId val, fails)],
                   writers := (writers s)(device \<mapsto>
                     (if fails then W_Set val (i + 1) True else W_Stats val False))\<rparr>)
      else Some (s\<lparr>writers := (writers s)(device \<mapsto> W_Stats val err)\<rparr>))"
| "writeInMemcached_step cfg device fails (W_Stats val err) s =
     (if err
      then (case RecordFailure (stats s) (FileName val) of
              None \<Rightarrow> Some (s\<lparr>logger := logger s @ [LogSendingFailed], status := Panicked\<rparr>)
            | Some st \<Rightarrow>
                Some (s\<lparr>stats := st, logger := logger s @ [LogSendingFailed, LogSet (DevId val)],
                        writers := (writers s)(device \<mapsto> W_Recv)\<rparr>))
      else Some (s\<lparr>logger := logger s @ [LogSet (DevId val)],
                   writers := (writers s)(device \<mapsto> W_Recv)\<rparr>))"

subsection \<open>The scheduler\<close>

text \<open>
  An event is the choice of the goroutine that moves next: the reader of a file, the
  writer of a device type (with the answer of memcached), or \<^verbatim>\<open>main\<close>, which returns
  from \<^verbatim>\<open>wg.Wait()\<close> when the counter is 0 and so ends the process. Nothing moves once
  the process has ended. When no goroutine can move, the Go runtime ends the process
  with a fatal error; this end is not an event of the model, whose states with no
  possible step are the deadlocks.
\<close>

datatype event = Reader string | Writer string bool | MainReturn

fun step :: "config \<Rightarrow> event \<Rightarrow> proc \<Rightarrow> proc option" where
  "step cfg (Reader filename) s =
     (if status s \<noteq> Running then None
      else (case readers s filename of None \<Rightarrow> None | Some r \<Rightarrow> readFile_step cfg filename r s))"
| "step cfg (Writer device fails) s =
     (if status s \<noteq> Running then None
      else (case writers s device of None \<Rightarrow> None | Some w \<Rightarrow> writeInMemcached_step cfg device fails w s))"
| "step cfg MainReturn s =
     (if status s \<noteq> Running then None
      else if wg s = 0 then Some (s\<lparr>status := Exited 0\<rparr>) else None)"

fun run :: "config \<Rightarrow> event list \<Rightarrow> proc \<Rightarrow> proc option" where
  "run cfg [] s = Some s"
| "run cfg (e # es) s = (case step cfg e s of None \<Rightarrow> None | Some s' \<Rightarrow> run cfg es s')"

subsection \<open>Inputs of the examples\<close>

text \<open>
  A line is five fields between tabs. The examples run the process on files of one
  line, \<^verbatim>\<open>dev<TAB>d1<TAB>1.5<TAB>2.5<TAB>7,8\<close>, with queues of 10 records and 3 attempts
  for a delivery. \<^verbatim>\<open>ParseFloat\<close> reads \<^verbatim>\<open>1.5\<close> and \<^verbatim>\<open>2.5\<close> as these numbers, which binary64
  holds exactly.
\<close>

abbreviation tsv :: "string \<Rightarrow> string \<Rightarrow> string \<Rightarrow> string \<Rightarrow> string \<Rightarrow> string" where
  "tsv a b c d e \<equiv> a @ [TAB] @ b @ [TAB] @ c @ [TAB] @ d @ [TAB] @ e"

abbreviation sample_line :: "string \<Rightarrow> string" where
  "sample_line dev \<equiv> tsv dev ''d1'' ''1.5'' ''2.5'' ''7,8''"

abbreviation sample_ParseFloat :: "string \<Rightarrow> float_parse" where
  "sample_ParseFloat \<equiv>
     (\<lambda>t. if t = ''1.5'' then Parsed (Finite (3 / 2))
          else if t = ''2.5'' then Parsed (Finite (5 / 2)) else SyntaxError)"

abbreviation sample_record :: "string \<Rightarrow> string \<Rightarrow> appsInstalled" where
  "sample_record dev filename \<equiv>
     \<lparr>DevType = dev, DevId = ''d1'', Lat = Finite (3 / 2), Lon = Finite (3 / 2), Apps = [7, 8],
      FileName = filename\<rparr>"

abbreviation sample_file :: "string \<Rightarrow> input_file" where
  "sample_file dev \<equiv>
     \<lparr>canOpen = True, canGunzip = True, content = [sample_line dev], scanFails = False,
      canRename = True\<rparr>"

abbreviation sample_config :: "(string \<Rightarrow> input_file) \<Rightarrow> config" where
  "sample_config fs \<equiv> \<lparr>channelSize = 10, maxRetry = 3, ParseFloat = sample_ParseFloat, fsys = fs\<rparr>"

text \<open>Every file holds a record for \<^verbatim>\<open>idfa\<close>.\<close>

abbreviation one_file :: config where
  "one_file \<equiv> sample_config (\<lambda>n. sample_file ''idfa'')"

text \<open>The file \<^verbatim>\<open>a/f.gz\<close> holds a record of the device type \<^verbatim>\<open>abcd\<close>.\<close>

abbreviation unknown_device :: config where
  "unknown_device \<equiv>
     sample_config (\<lambda>n. if n = ''a/f.gz'' then sample_file ''abcd'' else sample_file ''idfa'')"

text \<open>No file can be renamed.\<close>

abbreviation rename_fails :: config where
  "rename_fails \<equiv> sample_config (\<lambda>n. (sample_file ''idfa'')\<lparr>canRename := False\<rparr>)"

text \<open>The file \<^verbatim>\<open>a/f.gz\<close> cannot be opened.\<close>

abbreviation open_fails :: config where
  "open_fails \<equiv> sample_config (\<lambda>n. (sample_file ''idfa'')\<lparr>canOpen := (n \<noteq> ''a/f.gz'')\<rparr>)"

text \<open>The states of the examples, each by the schedule that leads to it.\<close>

text \<open>
  The reader of the one file queues its record; the writer receives it, its three calls
  of \<^verbatim>\<open>Set\<close> fail and it leaves the loop.
\<close>

abbreviation retries_used_up :: "proc option" where
  "retries_used_up \<equiv>
     run one_file
       [Reader ''a/f.gz'', Reader ''a/f.gz'', Reader ''a/f.gz'', Reader ''a/f.gz'',
        Writer ''idfa'' True, Writer ''idfa'' True, Writer ''idfa'' True,
        Writer ''idfa'' True, Writer ''idfa'' True]
       (main_init one_file [''a/f.gz''])"

text \<open>
  The reader of \<^verbatim>\<open>a/f.gz\<close> is about to scan the line of the
  unknown device type.
\<close>

abbreviation unknown_device_next :: "proc option" where
  "unknown_device_next \<equiv>
     run unknown_device
       [Reader ''a/f.gz'', Reader ''a/f.gz'']
       (main_init unknown_device [''a/f.gz'', ''a/g.gz''])"

text \<open>
  It scans the line; then the other file is read, its record delivered and the file
  renamed.
\<close>

abbreviation blocked_later :: "proc option" where
  "blocked_later \<equiv>
     run unknown_device
       [Reader ''a/f.gz'', Reader ''a/g.gz'', Reader ''a/g.gz'', Reader ''a/g.gz'',
        Reader ''a/g.gz'', Writer ''idfa'' False, Writer ''idfa'' False,
        Writer ''idfa'' False, Reader ''a/g.gz'', Reader ''a/g.gz'', Reader ''a/g.gz'',
        Reader ''a/g.gz'']
       (the unknown_device_next)"

text \<open>
  The reader has scanned the file and taken its count of failures.
\<close>

abbreviation verdict_reached :: "proc option" where
  "verdict_reached \<equiv>
     run rename_fails
       [Reader ''a/f.gz'', Reader ''a/f.gz'', Reader ''a/f.gz'', Reader ''a/f.gz'',
        Reader ''a/f.gz'', Reader ''a/f.gz'']
       (main_init rename_fails [''a/f.gz''])"

text \<open>
  The reader has logged the verdict, failed to rename the file and returned.
\<close>

abbreviation reader_returned :: "proc option" where
  "reader_returned \<equiv>
     run rename_fails
       [Reader ''a/f.gz'', Reader ''a/f.gz'', Reader ''a/f.gz'', Reader ''a/f.gz'',
        Reader ''a/f.gz'', Reader ''a/f.gz'', Reader ''a/f.gz'', Reader ''a/f.gz'']
       (main_init rename_fails [''a/f.gz''])"

text \<open>
  The reader of \<^verbatim>\<open>a/g.gz\<close> has queued its record; the reader of
  \<^verbatim>\<open>a/f.gz\<close> has not begun.
\<close>

abbreviation other_file_queued :: "proc option" where
  "other_file_queued \<equiv>
     run open_fails
       [Reader ''a/g.gz'', Reader ''a/g.gz'', Reader ''a/g.gz'', Reader ''a/g.gz'']
       (main_init open_fails [''a/f.gz'', ''a/g.gz''])"

text \<open>
  Then the reader of \<^verbatim>\<open>a/f.gz\<close> fails to open its file: it writes the message of
  \<^verbatim>\<open>logger.Fatal\<close> and calls \<^verbatim>\<open>os.Exit(1)\<close>.
\<close>

abbreviation after_open_failure :: "proc option" where
  "after_open_failure \<equiv>
     run open_fails
       [Reader ''a/g.gz'', Reader ''a/g.gz'', Reader ''a/g.gz'', Reader ''a/g.gz'',
        Reader ''a/f.gz'', Reader ''a/f.gz'']
       (main_init open_fails [''a/f.gz'', ''a/g.gz''])"

text \<open>
  Or, between the message and the call of \<^verbatim>\<open>os.Exit(1)\<close>, the writer of \<^verbatim>\<open>idfa\<close> receives the
  record and the reader of \<^verbatim>\<open>a/g.gz\<close> ends its scan.
\<close>

abbreviation between_log_and_exit :: "proc option" where
  "between_log_and_exit \<equiv>
     run open_fails
       [Reader ''a/g.gz'', Reader ''a/g.gz'', Reader ''a/g.gz'', Reader ''a/g.gz'',
        Reader ''a/f.gz'', Writer ''idfa'' False, Reader ''a/g.gz'']
       (main_init open_fails [''a/f.gz'', ''a/g.gz''])"

text \<open>
  The reader has queued the record of the one line; the writer has not received it.
\<close>

abbreviation scan_ended :: "proc option" where
  "scan_ended \<equiv>
     run one_file
       [Reader ''a/f.gz'', Reader ''a/f.gz'', Reader ''a/f.gz'', Reader ''a/f.gz'']
       (main_init one_file [''a/f.gz''])"

text \<open>
  The reader has gone on to take its count of failures.
\<close>

abbreviation count_taken :: "proc option" where
  "count_taken \<equiv>
     run one_file
       [Reader ''a/f.gz'', Reader ''a/f.gz'', Reader ''a/f.gz'', Reader ''a/f.gz'',
        Reader ''a/f.gz'', Reader ''a/f.gz'']
       (main_init one_file [''a/f.gz''])"

text \<open>
  The reader has logged its verdict; then the writer receives the record and its three
  calls of \<^verbatim>\<open>Set\<close> fail.
\<close>

abbreviation verdict_before_failures :: "proc option" where
  "verdict_before_failures \<equiv>
     run one_file
       [Reader ''a/f.gz'', Reader ''a/f.gz'', Reader ''a/f.gz'', Reader ''a/f.gz'',
        Reader ''a/f.gz'', Reader ''a/f.gz'', Reader ''a/f.gz'', Writer ''idfa'' True,
        Writer ''idfa'' True, Writer ''idfa'' True, Writer ''idfa'' True,
        Writer ''idfa'' True]
       (main_init one_file [''a/f.gz''])"

text \<open>
  Two calls of \<^verbatim>\<open>Set\<close> fail, the third succeeds, and the writer
  is back at its receive.
\<close>

abbreviation third_attempt_succeeds :: "proc option" where
  "third_attempt_succeeds \<equiv>
     run one_file
       [Reader ''a/f.gz'', Reader ''a/f.gz'', Reader ''a/f.gz'', Reader ''a/f.gz'',
        Writer ''idfa'' True, Writer ''idfa'' True, Writer ''idfa'' True,
        Writer ''idfa'' False, Writer ''idfa'' False]
       (main_init one_file [''a/f.gz''])"

text \<open>
  All three calls of \<^verbatim>\<open>Set\<close> fail and the writer runs the
  increment of the statistics.
\<close>

abbreviation all_attempts_fail :: "proc option" where
  "all_attempts_fail \<equiv>
     run one_file
       [Reader ''a/f.gz'', Reader ''a/f.gz'', Reader ''a/f.gz'', Reader ''a/f.gz'',
        Writer ''idfa'' True, Writer ''idfa'' True, Writer ''idfa'' True,
        Writer ''idfa'' True, Writer ''idfa'' True, Writer ''idfa'' True]
       (main_init one_file [''a/f.gz''])"

section \<open>The decoder\<close>

lemma Split_not_Nil: "Split s sep \<noteq> []"
  by (induction s) (auto split: list.splits)

lemma ParseUint_digits_syntax: "ParseUint_digits n s = (v, Some ErrSyntax) \<Longrightarrow> v = 0"
  by (induction s arbitrary: n) (auto split: option.splits if_splits)

lemma ParseUint_digits_range: "ParseUint_digits n s = (v, Some ErrRange) \<Longrightarrow> v = 2 ^ 64 - 1"
  by (induction s arbitrary: n) (auto split: option.splits if_splits)

lemma Atoi_syntax: "Atoi v = (n, Some ErrSyntax) \<Longrightarrow> n = 0"
  by (auto simp: Atoi_def ParseInt_def Let_def split: list.splits prod.splits if_splits)

lemma Atoi_range:
  "Atoi v = (n, Some ErrRange) \<Longrightarrow> n = (if hd v = CHR ''-'' then - (2 ^ 63) else 2 ^ 63 - 1)"
  by (auto simp: Atoi_def ParseInt_def Let_def split: list.splits prod.splits if_splits)

lemmas decode_defs = parseLine_def Atoi_def ParseInt_def ParseUint_def digit_def

text \<open>
  C2. A valid line of five fields with a device type and a device id is decoded without
  error, but the longitude of the record is not the parsed fourth field: line 54 parses
  \<^verbatim>\<open>lineParts[2]\<close> again, so the longitude of every record equals its latitude. On the
  line \<^verbatim>\<open>idfa<TAB>d1<TAB>1.5<TAB>2.5<TAB>7,8\<close> both are what \<^verbatim>\<open>ParseFloat\<close> returns for
  \<^verbatim>\<open>1.5\<close>.
\<close>

theorem parseLine_lon_from_third_field:
  "Lon (fst (parseLine pf line fn)) = Lat (fst (parseLine pf line fn)) \<and>
   snd (parseLine pf (sample_line ''idfa'') fn) = None \<and>
   Lon (fst (parseLine pf (sample_line ''idfa'') fn))
     = float_parse_value (pf ''1.5'')"
  by (simp add: parseLine_def Let_def)

text \<open>
  C6. Decoding a line fails, with the one error \<^verbatim>\<open>ErrParseLine\<close>, exactly when splitting
  it at the tabs does not give five fields or the first or the second field is empty.
  The reader that scans such a line adds one to \<^verbatim>\<open>nErrors\<close>, leaves \<^verbatim>\<open>nSuccess\<close> as it
  is, logs the error and goes on with the rest of the file.
\<close>

theorem malformed_line_counted:
  "(snd (parseLine pf line fn) = Some ErrParseLine) =
     (length (Split line TAB) \<noteq> 5 \<or> Split line TAB ! 0 = [] \<or> Split line TAB ! 1 = []) \<and>
   (status s = Running \<and> readers s fn = Some (R_Scan (line # rest) nSuccess nErrors) \<and>
    snd (parseLine (ParseFloat cfg) line fn) \<noteq> None \<longrightarrow>
      step cfg (Reader fn) s =
        Some (s\<lparr>readers := (readers s)(fn \<mapsto> R_Scan rest nSuccess (nErrors + 1)),
                logger := logger s @ [LogParseLine]\<rparr>))"
proof (intro conjI impI)
  show "(snd (parseLine pf line fn) = Some ErrParseLine) =
     (length (Split line TAB) \<noteq> 5 \<or> Split line TAB ! 0 = [] \<or> Split line TAB ! 1 = [])"
    by (simp add: parseLine_def Let_def)
next
  assume a: "status s = Running \<and> readers s fn = Some (R_Scan (line # rest) nSuccess nErrors) \<and>
    snd (parseLine (ParseFloat cfg) line fn) \<noteq> None"
  then obtain apps err where "parseLine (ParseFloat cfg) line fn = (apps, Some err)"
    by (cases "parseLine (ParseFloat cfg) line fn") auto
  with a show "step cfg (Reader fn) s =
        Some (s\<lparr>readers := (readers s)(fn \<mapsto> R_Scan rest nSuccess (nErrors + 1)),
                logger := logger s @ [LogParseLine]\<rparr>)"
    by simp
qed

theorem malformed_line_counted_witness:
  "snd (parseLine sample_ParseFloat (tsv ''idfa'' '''' ''1.5'' ''2.5'' ''7,8'') ''f.gz'')
     = Some ErrParseLine \<and>
   step \<lparr>channelSize = 10, maxRetry = 3, ParseFloat = sample_ParseFloat,
         fsys = (\<lambda>n. \<lparr>canOpen = True, canGunzip = True, content = [], scanFails = False,
                       canRename = True\<rparr>)\<rparr>
        (Reader ''f.gz'')
        \<lparr>stats = None, channels = Map.empty,
         readers = [''f.gz'' \<mapsto> R_Scan [tsv ''idfa'' '''' ''1.5'' ''2.5'' ''7,8'', ''x''] 4 2],
         writers = Map.empty, wg = 1, logger = [], renameCalls = [], setCalls = [],
         status = Running\<rparr>
     = Some \<lparr>stats = None, channels = Map.empty,
         readers = [''f.gz'' \<mapsto> R_Scan [''x''] 4 3],
         writers = Map.empty, wg = 1, logger = [LogParseLine], renameCalls = [], setCalls = [],
         status = Running\<rparr>"
  using malformed_line_counted
    [of sample_ParseFloat "tsv ''idfa'' '''' ''1.5'' ''2.5'' ''7,8''" "''f.gz''"
        "\<lparr>stats = None, channels = Map.empty,
         readers = [''f.gz'' \<mapsto> R_Scan [tsv ''idfa'' '''' ''1.5'' ''2.5'' ''7,8'', ''x''] 4 2],
         writers = Map.empty, wg = 1, logger = [], renameCalls = [], setCalls = [],
         status = Running\<rparr>"
        "[''x'']" 4 2
        "\<lparr>channelSize = 10, maxRetry = 3, ParseFloat = sample_ParseFloat,
         fsys = (\<lambda>n. \<lparr>canOpen = True, canGunzip = True, content = [], scanFails = False,
                       canRename = True\<rparr>)\<rparr>"]
  by (simp add: parseLine_def)

text \<open>
  C9, as the claim states it, fails on an app id that is a number out of the range of
  \<^verbatim>\<open>int\<close>: \<^verbatim>\<open>Atoi\<close> fails on \<^verbatim>\<open>9223372036854775808\<close> with a range error and returns the
  largest \<^verbatim>\<open>int\<close>, whose low 32 bits are 4294967295, not 0.
\<close>

theorem app_id_out_of_range_counterexample:
  "snd (parseLine sample_ParseFloat (tsv ''idfa'' ''d1'' ''1.5'' ''2.5'' ''7,9223372036854775808'') ''f.gz'') = None \<and>
   snd (Atoi ''9223372036854775808'') = Some ErrRange \<and>
   Apps (fst (parseLine sample_ParseFloat (tsv ''idfa'' ''d1'' ''1.5'' ''2.5'' ''7,9223372036854775808'') ''f.gz'')) = [7, 4294967295]"
  by (simp add: decode_defs)

text \<open>
  C9, amended. On a line that is decoded without error, every entry of the app list
  gives one app id: the low 32 bits of the number when \<^verbatim>\<open>Atoi\<close> succeeds, 0 when it fails
  with a syntax error, and for a number out of the range of \<^verbatim>\<open>int\<close> 4294967295 (positive)
  or 0 (negative). The latitude is what \<^verbatim>\<open>ParseFloat\<close> returns for the third field: 0
  when it fails with a syntax error, an infinity when the number is out of range.
  Neither failure fails the record.
\<close>

theorem permissive_numbers:
  assumes "snd (parseLine pf line fn) = None"
  shows "Apps (fst (parseLine pf line fn)) =
           map (\<lambda>v. case Atoi v of
                       (n, None) \<Rightarrow> word_of_int n
                     | (n, Some ErrSyntax) \<Rightarrow> 0
                     | (n, Some ErrRange) \<Rightarrow> if hd v = CHR ''-'' then 0 else 4294967295)
               (Split (Split line TAB ! 4) (CHR '','')) \<and>
         Lat (fst (parseLine pf line fn)) =
           (case pf (Split line TAB ! 2) of
              Parsed f \<Rightarrow> f
            | SyntaxError \<Rightarrow> Finite 0
            | RangeError neg \<Rightarrow> if neg then NegInf else PosInf)"
proof -
  have app: "(word_of_int (fst (Atoi v)) :: 32 word) =
        (case Atoi v of
           (n, None) \<Rightarrow> word_of_int n
         | (n, Some ErrSyntax) \<Rightarrow> 0
         | (n, Some ErrRange) \<Rightarrow> if hd v = CHR ''-'' then 0 else 4294967295)" for v
  proof (cases "Atoi v")
    case (Pair n e)
    show ?thesis
    proof (cases e)
      case None
      with Pair show ?thesis by simp
    next
      case (Some err)
      show ?thesis
      proof (cases err)
        case ErrSyntax
        with Pair Some Atoi_syntax [of v n] show ?thesis by simp
      next
        case ErrRange
        with Pair Some Atoi_range [of v n] show ?thesis by simp
      qed
    qed
  qed
  have lat: "float_parse_value r =
        (case r of Parsed f \<Rightarrow> f | SyntaxError \<Rightarrow> Finite 0
         | RangeError neg \<Rightarrow> if neg then NegInf else PosInf)" for r
    by (cases r) simp_all
  from assms have ok: "length (Split line TAB) = 5" "Split line TAB ! 0 \<noteq> []" "Split line TAB ! 1 \<noteq> []"
    by (auto simp: parseLine_def Let_def split: if_splits)
  from ok show ?thesis
    by (simp add: parseLine_def Let_def app lat)
qed

theorem permissive_numbers_witness:
  "snd (parseLine (\<lambda>t. if t = ''1e999'' then RangeError False else SyntaxError)
         (tsv ''idfa'' ''d1'' ''1e999'' ''2.5''
            ''7,x,,-9223372036854775809,9223372036854775808,4294967297'') ''f.gz'') = None \<and>
   Apps (fst (parseLine (\<lambda>t. if t = ''1e999'' then RangeError False else SyntaxError)
         (tsv ''idfa'' ''d1'' ''1e999'' ''2.5''
            ''7,x,,-9223372036854775809,9223372036854775808,4294967297'') ''f.gz''))
     = [7, 0, 0, 0, 4294967295, 1] \<and>
   Lat (fst (parseLine (\<lambda>t. if t = ''1e999'' then RangeError False else SyntaxError)
         (tsv ''idfa'' ''d1'' ''1e999'' ''2.5''
            ''7,x,,-9223372036854775809,9223372036854775808,4294967297'') ''f.gz''))
     = PosInf"
proof -
  let ?pf = "\<lambda>t. if t = ''1e999'' then RangeError False else SyntaxError"
  let ?line = "tsv ''idfa'' ''d1'' ''1e999'' ''2.5''
            ''7,x,,-9223372036854775809,9223372036854775808,4294967297''"
  have ok: "snd (parseLine ?pf ?line ''f.gz'') = None"
    by (simp add: parseLine_def)
  from permissive_numbers [OF ok] ok show ?thesis
    by (simp add: Atoi_def ParseInt_def ParseUint_def digit_def)
qed

section \<open>The verdict on a file\<close>

subsection \<open>Rounding to binary64\<close>

lemma pow2_powi: "pow2 k = 2 powi k"
  by (simp add: pow2_def power_int_def inverse_eq_divide power_one_over)

lemma pow2_pos: "0 < pow2 k"
  by (simp add: pow2_powi)

lemma pow2_add: "pow2 (k + l) = pow2 k * pow2 l"
  by (simp add: pow2_powi power_int_add)

lemma pow2_nat: "pow2 (int n) = 2 ^ n"
  by (simp add: pow2_powi)

lemma pow2_mono: "k \<le> l \<Longrightarrow> pow2 k \<le> pow2 l"
  by (simp add: pow2_powi power_int_increasing)

lemma pow2_less_iff: "pow2 k < pow2 l \<longleftrightarrow> k < l"
proof
  assume "pow2 k < pow2 l"
  show "k < l"
  proof (rule ccontr)
    assume "\<not> k < l"
    then have "pow2 l \<le> pow2 k" by (intro pow2_mono) simp
    with \<open>pow2 k < pow2 l\<close> show False by simp
  qed
next
  assume "k < l"
  then show "pow2 k < pow2 l"
    by (simp add: pow2_powi power_int_strict_increasing)
qed

lemma bitlen_bounds: "0 < n \<Longrightarrow> 2 ^ (bitlen n - 1) \<le> n \<and> n < 2 ^ bitlen n"
proof (induction n rule: bitlen.induct)
  case (1 n)
  show ?case
  proof (cases "n div 2 = 0")
    case True
    with "1.prems" have "n = 1" by (simp add: div_eq_0_iff) 
    then show ?thesis by (simp add: bitlen.simps [of "Suc 0"] bitlen.simps [of 0])
  next
    case False
    with "1.IH" "1.prems" have ih: "2 ^ (bitlen (n div 2) - 1) \<le> n div 2" "n div 2 < 2 ^ bitlen (n div 2)"
      by simp_all
    from False have pos: "0 < bitlen (n div 2)"
      by (simp add: bitlen.simps [of "n div 2"])
    from "1.prems" have bl: "bitlen n = Suc (bitlen (n div 2))"
      by (simp add: bitlen.simps [of n])
    from pos have "(2::nat) ^ bitlen (n div 2) = 2 * 2 ^ (bitlen (n div 2) - 1)"
      by (cases "bitlen (n div 2)") simp_all
    with ih(1) have "2 ^ bitlen (n div 2) \<le> 2 * (n div 2)" by simp
    also have "\<dots> \<le> n" by simp
    finally have lo: "2 ^ (bitlen n - 1) \<le> n" by (simp add: bl)
    from ih(2) have "n < 2 * 2 ^ bitlen (n div 2)" by linarith
    then have hi: "n < 2 ^ bitlen n" by (simp add: bl)
    from lo hi show ?thesis by simp
  qed
qed

lemma bitlen_pos: "0 < n \<Longrightarrow> 0 < bitlen n"
  by (simp add: bitlen.simps [of n])

lemma ilog2_bounds:
  assumes "0 < a" and "0 < b"
  shows "pow2 (ilog2 a b) * of_int (int b) \<le> of_int (int a)"
    and "of_int (int a) < pow2 (ilog2 a b + 1) * of_int (int b)"
proof -
  define la where "la = bitlen a"
  define lb where "lb = bitlen b"
  define d where "d = int la - int lb"
  define A :: rat where "A = of_int (int a)"
  define B :: rat where "B = of_int (int b)"
  from assms have lpos: "0 < la" "0 < lb"
    by (simp_all add: la_def lb_def bitlen_pos)
  from bitlen_bounds [OF assms(1)] have "2 ^ (la - 1) \<le> a" "a < 2 ^ la"
    by (simp_all add: la_def)
  then have "(of_nat (2 ^ (la - 1)) :: rat) \<le> of_nat a" "(of_nat a :: rat) < of_nat (2 ^ la)"
    by (simp_all only: of_nat_le_iff of_nat_less_iff)
  then have A: "pow2 (int la - 1) \<le> A" "A < pow2 (int la)"
    using lpos by (simp_all add: A_def pow2_powi power_int_def nat_diff_distrib')
  from bitlen_bounds [OF assms(2)] have "2 ^ (lb - 1) \<le> b" "b < 2 ^ lb"
    by (simp_all add: lb_def)
  then have "(of_nat (2 ^ (lb - 1)) :: rat) \<le> of_nat b" "(of_nat b :: rat) < of_nat (2 ^ lb)"
    by (simp_all only: of_nat_le_iff of_nat_less_iff)
  then have B: "pow2 (int lb - 1) \<le> B" "B < pow2 (int lb)"
    using lpos by (simp_all add: B_def pow2_powi power_int_def nat_diff_distrib')
  have il: "ilog2 a b = (if pow2 d * B \<le> A then d else d - 1)"
    by (simp add: ilog2_def d_def la_def lb_def A_def B_def Let_def)
  have 1: "pow2 (ilog2 a b) * B \<le> A"
  proof (cases "pow2 d * B \<le> A")
    case True
    with il show ?thesis by simp
  next
    case False
    have "pow2 (d - 1) * B \<le> pow2 (d - 1) * pow2 (int lb)"
      using B(2) pow2_pos [of "d - 1"] by simp
    also have "\<dots> = pow2 (int la - 1)"
      by (simp add: pow2_add [symmetric] d_def)
    also have "\<dots> \<le> A" by (rule A(1))
    finally show ?thesis using il False by simp
  qed
  have 2: "A < pow2 (ilog2 a b + 1) * B"
  proof (cases "pow2 d * B \<le> A")
    case True
    have "A < pow2 (int la)" by (rule A(2))
    also have "\<dots> = pow2 (d + 1) * pow2 (int lb - 1)"
      by (simp add: pow2_add [symmetric] d_def)
    also have "\<dots> \<le> pow2 (d + 1) * B"
      using B(1) pow2_pos [of "d + 1"] by simp
    finally show ?thesis using il True by simp
  next
    case False
    with il show ?thesis by simp
  qed
  from 1 show "pow2 (ilog2 a b) * of_int (int b) \<le> of_int (int a)"
    by (simp add: A_def B_def)
  from 2 show "of_int (int a) < pow2 (ilog2 a b + 1) * of_int (int b)"
    by (simp add: A_def B_def)
qed

lemma round_even_bounds:
  assumes "0 < b"
  shows "2 * x \<le> (2 * round_even x b + 1) * b" and "2 * round_even x b * b \<le> 2 * x + b"
proof -
  define q where "q = x div b"
  define r where "r = x mod b"
  have x: "x = q * b + r" by (simp add: q_def r_def)
  from assms have r: "r < b" by (simp add: r_def)
  have re: "round_even x b = (if 2 * r < b then q else if b < 2 * r then q + 1 else if even q then q else q + 1)"
    by (simp add: round_even_def q_def r_def Let_def)
  show "2 * x \<le> (2 * round_even x b + 1) * b"
    unfolding re using r by (auto simp: x algebra_simps)
  show "2 * round_even x b * b \<le> 2 * x + b"
    unfolding re using r by (auto simp: x algebra_simps)
qed

lemma pow2_shift: "int N = l - k \<Longrightarrow> pow2 k * 2 ^ N = pow2 l"
proof -
  assume "int N = l - k"
  then have "l = k + int N" by simp
  then show ?thesis by (simp add: pow2_add pow2_nat)
qed

lemma round_even_1: "round_even x 1 = x"
  by (simp add: round_even_def)

lemma round64_Finite:
  assumes "n \<noteq> 0" and "d \<noteq> 0"
    and "max (ilog2 (nat \<bar>n\<bar>) d) (- 1022) - 52 = E"
    and "(if 0 \<le> E then round_even (nat \<bar>n\<bar>) (d * 2 ^ nat E)
          else round_even (nat \<bar>n\<bar> * 2 ^ nat (- E)) d) = m"
    and "\<not> 2 ^ 1024 \<le> of_int (int m) * pow2 E"
  shows "round64 n d = Finite (if n < 0 then - (of_int (int m) * pow2 E) else of_int (int m) * pow2 E)"
proof -
  have "round64 n d =
     (let a = nat \<bar>n\<bar>;
            e = max (ilog2 a d) (- 1022) - 52;
            m = (if 0 \<le> e then round_even a (d * 2 ^ nat e)
                 else round_even (a * 2 ^ nat (- e)) d);
            r = of_int (int m) * pow2 e
        in if 2 ^ 1024 \<le> r then (if n < 0 then NegInf else PosInf)
           else Finite (if n < 0 then - r else r))"
    unfolding round64_def using assms(1,2) by (simp only: if_False simp_thms)
  also have "\<dots> = (if 2 ^ 1024 \<le> of_int (int m) * pow2 E then (if n < 0 then NegInf else PosInf)
           else Finite (if n < 0 then - (of_int (int m) * pow2 E) else of_int (int m) * pow2 E))"
    unfolding Let_def assms(3) assms(4) ..
  also have "\<dots> = Finite (if n < 0 then - (of_int (int m) * pow2 E) else of_int (int m) * pow2 E)"
    using assms(5) by (simp only: if_False)
  finally show ?thesis .
qed

text \<open>In the range of the counters, rounding a fraction keeps 53 bits and no exponent is out of range.\<close>

lemma round64_normal:
  fixes a b :: nat
  assumes "0 < a" and "0 < b" and "a < 2 ^ 53" and "b < 2 ^ 53"
  defines "e \<equiv> ilog2 a b"
  defines "N \<equiv> nat (52 - e)"
  defines "m \<equiv> round_even (a * 2 ^ N) b"
  shows "round64 (int a) b = Finite (of_int (int m) / 2 ^ N)"
    and "- 53 \<le> e" and "e \<le> 52"
    and "2 ^ 52 * b \<le> a * 2 ^ N" and "a * 2 ^ N < 2 ^ 53 * b"
    and "2 ^ 52 \<le> m" and "m \<le> 2 ^ 53"
proof -
  define A :: rat where "A = of_int (int a)"
  define B :: rat where "B = of_int (int b)"
  from assms(1-4) have AB: "1 \<le> A" "A < 2 ^ 53" "1 \<le> B" "B < 2 ^ 53"
    by (simp_all add: A_def B_def)
  from ilog2_bounds [OF assms(1,2)] have P: "pow2 e * B \<le> A" "A < pow2 (e + 1) * B"
    by (simp_all add: e_def A_def B_def)
  have p53: "pow2 53 = 2 ^ 53" and p0: "pow2 0 = 1"
    by (simp_all add: pow2_def)
  have "pow2 e * 1 \<le> pow2 e * B"
    using AB(3) pow2_pos [of e] by (intro mult_left_mono) simp_all
  also note P(1)
  also note AB(2)
  finally have "pow2 e < pow2 53"
    by (simp add: p53)
  then show e_hi: "e \<le> 52"
    by (simp add: pow2_less_iff)
  have "1 \<le> A" by (rule AB(1))
  also note P(2)
  also have "pow2 (e + 1) * B < pow2 (e + 1) * 2 ^ 53"
    using AB(4) pow2_pos [of "e + 1"] by (intro mult_strict_left_mono) simp_all
  also have "\<dots> = pow2 (e + 54)"
    by (rule pow2_shift) simp
  finally have "pow2 0 < pow2 (e + 54)"
    by (simp add: p0)
  then show e_lo: "- 53 \<le> e"
    by (simp add: pow2_less_iff)
  from e_hi have N: "int N = 52 - e"
    by (simp add: N_def)
  have s52: "pow2 e * 2 ^ N = 2 ^ 52"
    using pow2_shift [of N 52 e] N by (simp add: pow2_def)
  have s53: "pow2 (e + 1) * 2 ^ N = 2 ^ 53"
    using pow2_shift [of N 53 "e + 1"] N by (simp add: pow2_def)
  have "2 ^ 52 * B = (pow2 e * 2 ^ N) * B"
    by (simp only: s52)
  also have "\<dots> = (pow2 e * B) * 2 ^ N"
    by (simp only: mult_ac)
  also have "\<dots> \<le> A * 2 ^ N"
    using P(1) by (intro mult_right_mono) simp_all
  finally have "(of_nat (2 ^ 52 * b) :: rat) \<le> of_nat (a * 2 ^ N)"
    by (simp add: A_def B_def)
  then show lo: "2 ^ 52 * b \<le> a * 2 ^ N"
    by (simp only: of_nat_le_iff)
  have "A * 2 ^ N < (pow2 (e + 1) * B) * 2 ^ N"
    using P(2) by (intro mult_strict_right_mono) simp_all
  also have "\<dots> = (pow2 (e + 1) * 2 ^ N) * B"
    by (simp only: mult_ac)
  also have "\<dots> = 2 ^ 53 * B"
    by (simp only: s53)
  finally have "(of_nat (a * 2 ^ N) :: rat) < of_nat (2 ^ 53 * b)"
    by (simp add: A_def B_def)
  then show hi: "a * 2 ^ N < 2 ^ 53 * b"
    by (simp only: of_nat_less_iff)
  from round_even_bounds [OF assms(2), of "a * 2 ^ N"]
  have re: "2 * (a * 2 ^ N) \<le> 2 * (m * b) + b" "2 * (m * b) \<le> 2 * (a * 2 ^ N) + b"
    by (simp_all add: m_def algebra_simps)
  from lo have lo': "4503599627370496 * b \<le> a * 2 ^ N" by simp
  from hi have hi': "a * 2 ^ N < 9007199254740992 * b" by simp
  show m_lo: "2 ^ 52 \<le> m"
  proof (rule ccontr)
    assume "\<not> 2 ^ 52 \<le> m"
    then have "m \<le> 4503599627370495" by simp
    then have "m * b \<le> 4503599627370495 * b" by (rule mult_le_mono1)
    with lo' re(1) assms(2) show False by linarith
  qed
  show m_hi: "m \<le> 2 ^ 53"
  proof (rule ccontr)
    assume "\<not> m \<le> 2 ^ 53"
    then have "9007199254740993 \<le> m" by simp
    then have "9007199254740993 * b \<le> m * b" by (rule mult_le_mono1)
    with hi' re(2) assms(2) show False by linarith
  qed
  have M: "(if 0 \<le> e - 52 then round_even (nat \<bar>int a\<bar>) (b * 2 ^ nat (e - 52))
          else round_even (nat \<bar>int a\<bar> * 2 ^ nat (- (e - 52))) b) = m"
  proof (cases "0 \<le> e - 52")
    case True
    with e_hi have "e = 52" by simp
    then show ?thesis by (simp add: m_def N_def)
  next
    case False
    have "nat (- (e - 52)) = N" by (simp add: N_def)
    with False show ?thesis by (simp add: m_def)
  qed
  have "pow2 (e - 52) * 2 ^ N = 1"
    using pow2_shift [of N 0 "e - 52"] N by (simp add: p0)
  then have pe: "pow2 (e - 52) = 1 / 2 ^ N"
    by (simp add: field_simps)
  have "(of_nat m :: rat) \<le> of_nat (2 ^ 53)"
    using m_hi by (simp only: of_nat_le_iff)
  then have "(of_int (int m) :: rat) \<le> 2 ^ 53 * 1"
    by simp
  also have "(2::rat) ^ 53 * 1 \<le> 2 ^ 53 * 2 ^ N"
    by (intro mult_left_mono) simp_all
  finally have "(of_int (int m) :: rat) / 2 ^ N \<le> 2 ^ 53"
    by (simp add: pos_divide_le_eq)
  also have "(2::rat) ^ 53 < 2 ^ 1024"
    by (rule power_strict_increasing) simp_all
  finally have small': "\<not> (2::rat) ^ 1024 \<le> of_int (int m) / 2 ^ N"
    by (simp only: not_le)
  have eq: "of_int (int m) * pow2 (e - 52) = (of_int (int m) :: rat) / 2 ^ N"
    by (simp add: pe)
  have small: "\<not> 2 ^ 1024 \<le> of_int (int m) * pow2 (e - 52)"
    unfolding eq by (rule small')
  have E: "max (ilog2 (nat \<bar>int a\<bar>) b) (- 1022) - 52 = e - 52"
    using e_lo by (simp add: e_def)
  from assms(1,2) have "round64 (int a) b =
      Finite (if int a < 0 then - (of_int (int m) * pow2 (e - 52)) else of_int (int m) * pow2 (e - 52))"
    by (intro round64_Finite [OF _ _ E M small]) simp_all
  then show "round64 (int a) b = Finite (of_int (int m) / 2 ^ N)"
    by (simp add: pe)
qed

subsection \<open>Exact conversions and the quotient against the threshold\<close>

lemma bitlen_0: "bitlen 0 = 0"
  by (simp add: bitlen.simps)

lemma bitlen_Suc_0: "bitlen (Suc 0) = Suc 0"
  by (simp add: bitlen.simps [of "Suc 0"] bitlen_0)

lemma bitlen_One: "bitlen (numeral Num.One) = Suc 0"
  by (simp add: bitlen_Suc_0)

lemma bitlen_Bit0: "bitlen (numeral (Num.Bit0 k)) = Suc (bitlen (numeral k))"
  by (subst bitlen.simps) (simp add: numeral_Bit0_div_2)

lemma bitlen_Bit1: "bitlen (numeral (Num.Bit1 k)) = Suc (bitlen (numeral k))"
  by (subst bitlen.simps) (simp add: numeral_Bit1_div_2)

lemmas bitlen_numeral = bitlen_0 bitlen_Suc_0 bitlen_One bitlen_Bit0 bitlen_Bit1

lemmas float_defs = float64_of_int_def round64_def ilog2_def pow2_def round_even_def Let_def
  bitlen_numeral

lemma NormalErrRate_value: "NormalErrRate = Finite (5764607523034235 / 2 ^ 59)"
  by (simp add: NormalErrRate_def float_defs)

lemma float64_of_int_exact:
  assumes "0 \<le> n" and "n < 2 ^ 53"
  shows "float64_of_int n = Finite (of_int n)"
proof (cases "n = 0")
  case True
  then show ?thesis by (simp add: float64_of_int_def round64_def)
next
  case False
  define a where "a = nat n"
  from False assms have a: "0 < a" "a < 2 ^ 53" "int a = n"
    by (simp_all add: a_def nat_less_iff)
  define N where "N = nat (52 - ilog2 a 1)"
  have "round64 (int a) 1 = Finite (of_int (int (round_even (a * 2 ^ N) 1)) / 2 ^ N)"
    unfolding N_def by (rule round64_normal(1)) (use a in simp_all)
  also have "round_even (a * 2 ^ N) 1 = a * 2 ^ N"
    by (rule round_even_1)
  also have "(of_int (int (a * 2 ^ N)) :: rat) / 2 ^ N = of_int (int a)"
    by simp
  finally show ?thesis
    by (simp only: float64_of_int_def a(3))
qed

lemma rate_below_threshold:
  fixes a b :: nat
  assumes "0 < a" and "0 < b" and "a < 2 ^ 53" and "b < 2 ^ 53"
  shows "flt (round64 (int a) b) NormalErrRate \<longleftrightarrow> 100 * a < b"
proof -
  define N where "N = nat (52 - ilog2 a b)"
  define m where "m = round_even (a * 2 ^ N) b"
  note n = round64_normal [OF assms, folded N_def, folded m_def]
  from n(4) have lo: "4503599627370496 * b \<le> a * 2 ^ N" by simp
  from n(5) have hi: "a * 2 ^ N < 9007199254740992 * b" by simp
  from n(6) have m_lo: "4503599627370496 \<le> m" by simp
  from n(7) have m_hi: "m \<le> 9007199254740992" by simp
  from round_even_bounds [OF assms(2), of "a * 2 ^ N"]
  have re: "2 * (a * 2 ^ N) \<le> 2 * (m * b) + b" "2 * (m * b) \<le> 2 * (a * 2 ^ N) + b"
    by (simp_all add: m_def algebra_simps)
  from assms(4) have b: "b < 9007199254740992" by simp
  have "flt (round64 (int a) b) NormalErrRate \<longleftrightarrow>
        (of_int (int m) :: rat) / 2 ^ N < 5764607523034235 / 2 ^ 59"
    by (simp only: n(1) NormalErrRate_value flt.simps)
  also have "\<dots> \<longleftrightarrow> (of_nat (m * 2 ^ 59) :: rat) < of_nat (5764607523034235 * 2 ^ N)"
    by (simp add: field_simps)
  also have "\<dots> \<longleftrightarrow> m * 2 ^ 59 < 5764607523034235 * 2 ^ N"
    by (simp only: of_nat_less_iff)
  also have "\<dots> \<longleftrightarrow> 100 * a < b"
  proof (cases "100 * a < b")
    case True
    have N59: "59 \<le> N"
    proof (rule ccontr)
      assume "\<not> 59 \<le> N"
      then have "N \<le> 58" by simp
      then have "(2::nat) ^ N \<le> 2 ^ 58" by (intro power_increasing) simp_all
      then have "a * 2 ^ N \<le> a * 2 ^ 58" by (rule mult_le_mono2)
      then have "a * 2 ^ N \<le> 288230376151711744 * a" by simp
      with lo True show False by linarith
    qed
    have "m * 2 ^ 59 < 5764607523034235 * 2 ^ N"
    proof (cases "N = 59")
      case True
      have "m < 5764607523034235"
      proof (rule ccontr)
        assume "\<not> m < 5764607523034235"
        then have "5764607523034235 \<le> m" by simp
        then have "5764607523034235 * b \<le> m * b" by (rule mult_le_mono1)
        moreover from re(2) have "2 * (m * b) \<le> 1152921504606846976 * a + b"
          by (simp add: True)
        ultimately show False using \<open>100 * a < b\<close> b by linarith
      qed
      then show ?thesis by (simp add: True)
    next
      case False
      with N59 have "60 \<le> N" by simp
      then have "(2::nat) ^ 60 \<le> 2 ^ N" by (intro power_increasing) simp_all
      then have "5764607523034235 * (2::nat) ^ 60 \<le> 5764607523034235 * 2 ^ N"
        by (rule mult_le_mono2)
      moreover from m_hi have "m * 2 ^ 59 \<le> 9007199254740992 * 2 ^ 59"
        by (rule mult_le_mono1)
      moreover have "(9007199254740992::nat) * 2 ^ 59 < 5764607523034235 * 2 ^ 60"
        by simp
      ultimately show ?thesis by linarith
    qed
    with True show ?thesis by simp
  next
    case False
    have N59: "N \<le> 59"
    proof (rule ccontr)
      assume "\<not> N \<le> 59"
      then have "60 \<le> N" by simp
      then have "(2::nat) ^ 60 \<le> 2 ^ N" by (intro power_increasing) simp_all
      then have "a * 2 ^ 60 \<le> a * 2 ^ N" by (rule mult_le_mono2)
      then have "1152921504606846976 * a \<le> a * 2 ^ N" by simp
      with hi False show False by linarith
    qed
    have "\<not> m * 2 ^ 59 < 5764607523034235 * 2 ^ N"
    proof (cases "N = 59")
      case True
      have "5764607523034235 \<le> m"
      proof (rule ccontr)
        assume "\<not> 5764607523034235 \<le> m"
        then have "m \<le> 5764607523034234" by simp
        then have "m * b \<le> 5764607523034234 * b" by (rule mult_le_mono1)
        moreover from re(1) have "1152921504606846976 * a \<le> 2 * (m * b) + b"
          by (simp add: True)
        ultimately show False using \<open>\<not> 100 * a < b\<close> assms(2) by linarith
      qed
      then show ?thesis by (simp add: True)
    next
      case False
      with N59 have "N \<le> 58" by simp
      then have "(2::nat) ^ N \<le> 2 ^ 58" by (intro power_increasing) simp_all
      then have "5764607523034235 * (2::nat) ^ N \<le> 5764607523034235 * 2 ^ 58"
        by (rule mult_le_mono2)
      moreover from m_lo have "4503599627370496 * 2 ^ 59 \<le> m * 2 ^ 59"
        by (rule mult_le_mono1)
      moreover have "(5764607523034235::nat) * 2 ^ 58 \<le> 4503599627370496 * 2 ^ 59"
        by simp
      ultimately show ?thesis by linarith
    qed
    with False show ?thesis by simp
  qed
  finally show ?thesis .
qed

subsection \<open>The threshold\<close>

lemma fdiv_of_int:
  assumes "0 < b"
  shows "fdiv (Finite (of_int a)) (Finite (of_int b)) = round64 a (nat b)"
  using assms by simp

text \<open>
  C4. The verdict on a file is computed from \<^verbatim>\<open>nErrors + nSendingErrors\<close> and
  \<^verbatim>\<open>nSuccess - nSendingErrors\<close>: "All errors" when the second is 0, and otherwise from
  their quotient in binary64, which is acceptable exactly when it is below
  \<^verbatim>\<open>NormalErrRate\<close>, the binary64 nearest to 0.01. For counters below \<open>2 ^ 53\<close> the
  conversions are exact, the quotient is the exact ratio rounded once, and it is below
  \<^verbatim>\<open>NormalErrRate\<close> exactly when the exact ratio is below 1/100. With 200 successes, 2
  errors give the quotient \<^verbatim>\<open>NormalErrRate\<close> itself and a failed load, 1 error gives the
  binary64 nearest to 0.005 and a successful load.
\<close>

theorem reconcile_threshold:
  "reconcile nSuccess nErrors nSendingErrors =
     (if nSuccess - nSendingErrors = 0 then AllErrors
      else if flt (fdiv (float64_of_int (nErrors + nSendingErrors))
                        (float64_of_int (nSuccess - nSendingErrors))) NormalErrRate
      then Acceptable (fdiv (float64_of_int (nErrors + nSendingErrors))
                            (float64_of_int (nSuccess - nSendingErrors)))
      else HighErrorRate (fdiv (float64_of_int (nErrors + nSendingErrors))
                               (float64_of_int (nSuccess - nSendingErrors)))) \<and>
   successful (reconcile nSuccess nErrors nSendingErrors) =
     (nSuccess - nSendingErrors \<noteq> 0 \<and>
      flt (fdiv (float64_of_int (nErrors + nSendingErrors))
                (float64_of_int (nSuccess - nSendingErrors))) NormalErrRate) \<and>
   (0 \<le> nErrors + nSendingErrors \<and> nErrors + nSendingErrors < 2 ^ 53 \<and>
    0 < nSuccess - nSendingErrors \<and> nSuccess - nSendingErrors < 2 ^ 53 \<longrightarrow>
      fdiv (float64_of_int (nErrors + nSendingErrors)) (float64_of_int (nSuccess - nSendingErrors))
        = round64 (nErrors + nSendingErrors) (nat (nSuccess - nSendingErrors)) \<and>
      successful (reconcile nSuccess nErrors nSendingErrors) =
        (100 * (nErrors + nSendingErrors) < nSuccess - nSendingErrors)) \<and>
   NormalErrRate = Finite (5764607523034235 / 2 ^ 59) \<and>
   reconcile 200 2 0 = HighErrorRate NormalErrRate \<and>
   reconcile 200 1 0 = Acceptable (Finite (5764607523034235 / 2 ^ 60))"
proof (intro conjI impI)
  let ?rate = "fdiv (float64_of_int (nErrors + nSendingErrors))
                    (float64_of_int (nSuccess - nSendingErrors))"
  show "reconcile nSuccess nErrors nSendingErrors =
     (if nSuccess - nSendingErrors = 0 then AllErrors
      else if flt ?rate NormalErrRate then Acceptable ?rate else HighErrorRate ?rate)"
    by (simp add: reconcile_def Let_def)
  show gen: "successful (reconcile nSuccess nErrors nSendingErrors) =
     (nSuccess - nSendingErrors \<noteq> 0 \<and> flt ?rate NormalErrRate)"
    by (simp add: reconcile_def Let_def)
  show "NormalErrRate = Finite (5764607523034235 / 2 ^ 59)"
    by (rule NormalErrRate_value)
  show "reconcile 200 2 0 = HighErrorRate NormalErrRate"
    by (simp add: reconcile_def NormalErrRate_value float_defs)
  show "reconcile 200 1 0 = Acceptable (Finite (5764607523034235 / 2 ^ 60))"
    by (simp add: reconcile_def NormalErrRate_value float_defs)
  assume b: "0 \<le> nErrors + nSendingErrors \<and> nErrors + nSendingErrors < 2 ^ 53 \<and>
    0 < nSuccess - nSendingErrors \<and> nSuccess - nSendingErrors < 2 ^ 53"
  define x where "x = nErrors + nSendingErrors"
  define y where "y = nSuccess - nSendingErrors"
  from b have xy: "0 \<le> x" "x < 2 ^ 53" "0 < y" "y < 2 ^ 53"
    by (simp_all add: x_def y_def)
  from xy have "fdiv (float64_of_int x) (float64_of_int y) = fdiv (Finite (of_int x)) (Finite (of_int y))"
    by (simp only: float64_of_int_exact less_imp_le)
  also from xy(3) have "\<dots> = round64 x (nat y)"
    by (rule fdiv_of_int)
  finally have rate: "fdiv (float64_of_int x) (float64_of_int y) = round64 x (nat y)" .
  then show "?rate = round64 (nErrors + nSendingErrors) (nat (nSuccess - nSendingErrors))"
    by (simp only: x_def y_def)
  have "flt (round64 x (nat y)) NormalErrRate = (100 * x < y)"
  proof (cases "x = 0")
    case True
    with xy(3) show ?thesis
      by (simp add: round64_def NormalErrRate_value)
  next
    case False
    with xy have "flt (round64 (int (nat x)) (nat y)) NormalErrRate = (100 * nat x < nat y)"
      by (intro rate_below_threshold) (simp_all add: nat_less_iff)
    also have "(100 * nat x < nat y) = (int (100 * nat x) < int (nat y))"
      by (simp only: of_nat_less_iff)
    also from xy have "\<dots> = (100 * x < y)"
      by simp
    finally show ?thesis
      using xy by simp
  qed
  with rate xy(3) have "successful (reconcile nSuccess nErrors nSendingErrors) = (100 * x < y)"
    unfolding gen by (simp add: x_def y_def)
  then show "successful (reconcile nSuccess nErrors nSendingErrors) =
        (100 * (nErrors + nSendingErrors) < nSuccess - nSendingErrors)"
    by (simp only: x_def y_def)
qed

theorem reconcile_threshold_witness:
  "successful (reconcile 1000 3 2) \<and> \<not> successful (reconcile 1000 8 2) \<and>
   fdiv (float64_of_int 5) (float64_of_int 998) = round64 5 998"
proof -
  have h1: "0 \<le> (3::int) + 2 \<and> (3::int) + 2 < 2 ^ 53 \<and> 0 < (1000::int) - 2 \<and> (1000::int) - 2 < 2 ^ 53"
    by simp
  with reconcile_threshold [of 1000 3 2]
  have 1: "fdiv (float64_of_int (3 + 2)) (float64_of_int (1000 - 2)) = round64 (3 + 2) (nat (1000 - 2)) \<and>
      successful (reconcile 1000 3 2) = (100 * (3 + 2) < (1000::int) - 2)"
    by blast
  have h2: "0 \<le> (8::int) + 2 \<and> (8::int) + 2 < 2 ^ 53 \<and> 0 < (1000::int) - 2 \<and> (1000::int) - 2 < 2 ^ 53"
    by simp
  with reconcile_threshold [of 1000 8 2]
  have 2: "successful (reconcile 1000 8 2) = (100 * (8 + 2) < (1000::int) - 2)"
    by blast
  from 1 have "successful (reconcile 1000 3 2)"
    by simp
  moreover from 2 have "\<not> successful (reconcile 1000 8 2)"
    by simp
  moreover from 1 have "fdiv (float64_of_int 5) (float64_of_int 998) = round64 5 998"
    by simp
  ultimately show ?thesis
    by blast
qed

section \<open>The goroutines\<close>

subsection \<open>What a step leaves alone\<close>

lemma readFile_step_stats_None:
  "readFile_step cfg fn r s = Some s' \<Longrightarrow> stats s = None \<Longrightarrow> stats s' = None"
  by (cases "(cfg, fn, r, s)" rule: readFile_step.cases)
     (auto simp: TakeAndClear_def Let_def split: if_splits option.splits prod.splits)

lemma writeInMemcached_step_stats_None:
  "writeInMemcached_step cfg d fails w s = Some s' \<Longrightarrow> stats s = None \<Longrightarrow> stats s' = None"
  by (cases "(cfg, d, fails, w, s)" rule: writeInMemcached_step.cases)
     (auto simp: RecordFailure_def split: if_splits option.splits list.splits)

lemma step_stats_None: "step cfg e s = Some s' \<Longrightarrow> stats s = None \<Longrightarrow> stats s' = None"
  by (cases e)
     (auto split: if_splits option.splits dest: readFile_step_stats_None writeInMemcached_step_stats_None)

lemma run_stats_None: "run cfg evs s = Some s' \<Longrightarrow> stats s = None \<Longrightarrow> stats s' = None"
  by (induction evs arbitrary: s) (auto split: option.splits dest: step_stats_None)

lemma readFile_step_channels_None:
  "readFile_step cfg fn r s = Some s' \<Longrightarrow> channels s d = None \<Longrightarrow> channels s' d = None"
  by (cases "(cfg, fn, r, s)" rule: readFile_step.cases)
     (auto simp: Let_def split: if_splits option.splits prod.splits)

lemma writeInMemcached_step_channels_None:
  "writeInMemcached_step cfg dev fails w s = Some s' \<Longrightarrow> channels s d = None \<Longrightarrow> channels s' d = None"
  by (cases "(cfg, dev, fails, w, s)" rule: writeInMemcached_step.cases)
     (auto split: if_splits option.splits list.splits)

lemma step_channels_None: "step cfg e s = Some s' \<Longrightarrow> channels s d = None \<Longrightarrow> channels s' d = None"
  by (cases e)
     (auto split: if_splits option.splits dest: readFile_step_channels_None writeInMemcached_step_channels_None)

lemma run_channels_None: "run cfg evs s = Some s' \<Longrightarrow> channels s d = None \<Longrightarrow> channels s' d = None"
  by (induction evs arbitrary: s) (auto split: option.splits dest: step_channels_None)

lemma main_init_channels: "d \<notin> set devices \<Longrightarrow> channels (main_init cfg fileNames) d = None"
  by (simp add: main_init_def devices_def)

lemma readFile_step_other:
  "readFile_step cfg fn r s = Some s' \<Longrightarrow> fn' \<noteq> fn \<Longrightarrow> readers s' fn' = readers s fn'"
  by (cases "(cfg, fn, r, s)" rule: readFile_step.cases)
     (auto simp: Let_def split: if_splits option.splits prod.splits)

lemma writeInMemcached_step_readers:
  "writeInMemcached_step cfg dev fails w s = Some s' \<Longrightarrow> readers s' = readers s"
  by (cases "(cfg, dev, fails, w, s)" rule: writeInMemcached_step.cases)
     (auto split: if_splits option.splits list.splits)

lemma step_blocked_send:
  assumes "step cfg e s = Some s'"
    and "readers s fn = Some (R_Send apps rest nS nE)"
    and "channels s (DevType apps) = None"
  shows "readers s' fn = Some (R_Send apps rest nS nE)"
proof (cases e)
  case (Reader fn')
  show ?thesis
  proof (cases "fn' = fn")
    case True
    with assms Reader show ?thesis by (simp split: if_splits)
  next
    case False
    with assms Reader readFile_step_other [of cfg fn' _ s s' fn] show ?thesis
      by (auto split: if_splits option.splits)
  qed
next
  case (Writer dev fails)
  with assms writeInMemcached_step_readers [of cfg dev fails _ s s'] show ?thesis
    by (auto split: if_splits option.splits)
next
  case MainReturn
  with assms show ?thesis by (auto split: if_splits)
qed

lemma run_blocked_send:
  "run cfg evs s = Some s' \<Longrightarrow> readers s fn = Some (R_Send apps rest nS nE) \<Longrightarrow>
   channels s (DevType apps) = None \<Longrightarrow> readers s' fn = Some (R_Send apps rest nS nE)"
proof (induction evs arbitrary: s)
  case Nil
  then show ?case by simp
next
  case (Cons e evs)
  from Cons.prems(1) obtain t where t: "step cfg e s = Some t" "run cfg evs t = Some s'"
    by (auto split: option.splits)
  from t(1) Cons.prems(2,3) have "readers t fn = Some (R_Send apps rest nS nE)"
    by (rule step_blocked_send)
  moreover from t(1) Cons.prems(3) have "channels t (DevType apps) = None"
    by (rule step_channels_None)
  ultimately show ?case using Cons.IH t(2) by blast
qed

lemma readFile_step_renames:
  assumes "readFile_step cfg fn r s = Some s'" and "readers s fn = Some r"
    and "length (filter (\<lambda>c. fst c = f) (renameCalls s)) = (if readers s f = Some R_Done then 1 else 0)"
  shows "length (filter (\<lambda>c. fst c = f) (renameCalls s')) = (if readers s' f = Some R_Done then 1 else 0)"
  using assms
  by (cases "(cfg, fn, r, s)" rule: readFile_step.cases)
     (auto simp: Let_def split: if_splits option.splits prod.splits)

lemma writeInMemcached_step_renames:
  "writeInMemcached_step cfg dev fails w s = Some s' \<Longrightarrow> renameCalls s' = renameCalls s"
  by (cases "(cfg, dev, fails, w, s)" rule: writeInMemcached_step.cases)
     (auto split: if_splits option.splits list.splits)

lemma step_renames:
  assumes "step cfg e s = Some s'"
    and "length (filter (\<lambda>c. fst c = f) (renameCalls s)) = (if readers s f = Some R_Done then 1 else 0)"
  shows "length (filter (\<lambda>c. fst c = f) (renameCalls s')) = (if readers s' f = Some R_Done then 1 else 0)"
proof (cases e)
  case (Reader fn)
  with assms(1) obtain r where r: "readers s fn = Some r" "readFile_step cfg fn r s = Some s'"
    by (auto split: if_splits option.splits)
  from r(2) r(1) assms(2) show ?thesis by (rule readFile_step_renames)
next
  case (Writer dev fails)
  with assms(1) obtain w where w: "writeInMemcached_step cfg dev fails w s = Some s'"
    by (auto split: if_splits option.splits)
  from writeInMemcached_step_renames [OF w] writeInMemcached_step_readers [OF w] assms(2) show ?thesis by simp
next
  case MainReturn
  with assms show ?thesis by (auto split: if_splits)
qed

lemma run_renames:
  "run cfg evs s = Some s' \<Longrightarrow>
   length (filter (\<lambda>c. fst c = f) (renameCalls s)) = (if readers s f = Some R_Done then 1 else 0) \<Longrightarrow>
   length (filter (\<lambda>c. fst c = f) (renameCalls s')) = (if readers s' f = Some R_Done then 1 else 0)"
proof (induction evs arbitrary: s)
  case Nil
  then show ?case by simp
next
  case (Cons e evs)
  from Cons.prems(1) obtain t where t: "step cfg e s = Some t" "run cfg evs t = Some s'"
    by (auto split: option.splits)
  from t(1) Cons.prems(2) have "length (filter (\<lambda>c. fst c = f) (renameCalls t)) = (if readers t f = Some R_Done then 1 else 0)"
    by (rule step_renames)
  with Cons.IH t(2) show ?case by blast
qed

lemma main_init_readers: "readers (main_init cfg fileNames) f \<noteq> Some R_Done"
proof -
  have "map_of (map (\<lambda>fn. (fn, R_Open)) fns) f \<noteq> Some R_Done" for fns :: "string list"
    by (induction fns) auto
  then show ?thesis by (simp add: main_init_def)
qed

lemma main_init_renames: "renameCalls (main_init cfg fileNames) = []"
  by (simp add: main_init_def)

lemmas run_defs = main_init_def devices_def decode_defs TakeAndClear_def RecordFailure_def

text \<open>
  A run to the end: the record of the one file is queued, delivered at the first attempt,
  the file is renamed, and \<^verbatim>\<open>main\<close> returns.
\<close>

lemma run_to_the_end:
  "map_option (\<lambda>s. (status s, setCalls s, renameCalls s, wg s))
     (run one_file
        [Reader ''a/f.gz'', Reader ''a/f.gz'', Reader ''a/f.gz'', Reader ''a/f.gz'',
         Writer ''idfa'' False, Writer ''idfa'' False, Writer ''idfa'' False,
         Reader ''a/f.gz'', Reader ''a/f.gz'', Reader ''a/f.gz'', Reader ''a/f.gz'', MainReturn]
        (main_init one_file [''a/f.gz'']))
   = Some (Exited 0, [(''idfa'', ''idfa:d1'', False)], [(''a/f.gz'', ''a//.f.gz'', True)], 0)"
  by (simp add: run_defs archiveName_def filepath_Split_def)

text \<open>
  C7. \<^verbatim>\<open>main\<close> builds the statistics as the zero value of \<^verbatim>\<open>fileStats\<close>: the map is nil,
  and nothing the process does allocates it. On the nil map the read and the \<^verbatim>\<open>delete\<close> of
  the reader give 0 and leave the map as it is, and the increment of the writer panics:
  a writer whose retries are used up ends the process with a panic.
\<close>

theorem stats_map_stays_nil:
  "stats (main_init cfg fileNames) = None \<and>
   TakeAndClear None f = (0, None) \<and>
   RecordFailure None f = None \<and>
   (run cfg evs (main_init cfg fileNames) = Some s \<longrightarrow>
      stats s = None \<and>
      (status s = Running \<and> writers s dev = Some (W_Stats val True) \<longrightarrow>
         step cfg (Writer dev fails) s =
           Some (s\<lparr>logger := logger s @ [LogSendingFailed], status := Panicked\<rparr>)))"
proof (intro conjI impI)
  show init: "stats (main_init cfg fileNames) = None"
    by (simp add: main_init_def)
  show "TakeAndClear None f = (0, None)"
    by (simp add: TakeAndClear_def)
  show "RecordFailure None f = None"
    by (simp add: RecordFailure_def)
  assume r: "run cfg evs (main_init cfg fileNames) = Some s"
  from r init show nil: "stats s = None"
    by (rule run_stats_None)
  assume "status s = Running \<and> writers s dev = Some (W_Stats val True)"
  with nil show "step cfg (Writer dev fails) s =
           Some (s\<lparr>logger := logger s @ [LogSendingFailed], status := Panicked\<rparr>)"
    by (simp add: RecordFailure_def)
qed

theorem stats_map_stays_nil_witness:
  "retries_used_up \<noteq> None \<and>
   writers (the retries_used_up) ''idfa'' = Some (W_Stats (sample_record ''idfa'' ''a/f.gz'') True) \<and>
   stats (the retries_used_up) = None \<and>
   map_option status (step one_file (Writer ''idfa'' False) (the retries_used_up)) = Some Panicked"
proof -
  have ne: "retries_used_up \<noteq> None"
    by (simp add: run_defs)
  then obtain s where s: "retries_used_up = Some s"
    by blast
  have w: "writers (the retries_used_up) ''idfa'' = Some (W_Stats (sample_record ''idfa'' ''a/f.gz'') True)"
    by (simp add: run_defs)
  have st: "status (the retries_used_up) = Running"
    by (simp add: run_defs)
  from stats_map_stays_nil [of one_file "[''a/f.gz'']" "''a/f.gz''"
      "[Reader ''a/f.gz'', Reader ''a/f.gz'', Reader ''a/f.gz'', Reader ''a/f.gz'',
          Writer ''idfa'' True, Writer ''idfa'' True, Writer ''idfa'' True,
          Writer ''idfa'' True, Writer ''idfa'' True]"
      s "''idfa''" "(sample_record ''idfa'' ''a/f.gz'')" False]
    s w st ne
  show ?thesis
    by simp
qed

lemma run_append:
  "run cfg (xs @ ys) s = (case run cfg xs s of None \<Rightarrow> None | Some t \<Rightarrow> run cfg ys t)"
  by (induction xs arbitrary: s) (auto split: option.splits)

lemma blocked_send_forever:
  assumes "run cfg evs0 (main_init cfg fileNames) = Some s"
    and "readers s fn = Some (R_Send apps rest nSuccess nErrors)"
    and "DevType apps \<notin> set devices"
    and "run cfg evs s = Some s'"
  shows "readers s' fn = Some (R_Send apps rest nSuccess nErrors) \<and>
         step cfg (Reader fn) s' = None \<and>
         filter (\<lambda>c. fst c = fn) (renameCalls s') = []"
proof -
  from assms(3) have "channels (main_init cfg fileNames) (DevType apps) = None"
    by (rule main_init_channels)
  with assms(1) have nil: "channels s (DevType apps) = None"
    by (rule run_channels_None)
  with assms(4) have nil': "channels s' (DevType apps) = None"
    by (rule run_channels_None)
  from assms(4,2) nil have at: "readers s' fn = Some (R_Send apps rest nSuccess nErrors)"
    by (rule run_blocked_send)
  from assms(1,4) have "run cfg (evs0 @ evs) (main_init cfg fileNames) = Some s'"
    by (simp add: run_append)
  then have "length (filter (\<lambda>c. fst c = fn) (renameCalls s')) =
      (if readers s' fn = Some R_Done then 1 else 0)"
    by (rule run_renames) (simp add: main_init_renames main_init_readers)
  with at have "filter (\<lambda>c. fst c = fn) (renameCalls s') = []"
    by simp
  with at nil' show ?thesis
    by simp
qed

text \<open>
  C8. A line that is decoded to a record whose device type is none of \<^verbatim>\<open>idfa\<close>, \<^verbatim>\<open>gaid\<close>,
  \<^verbatim>\<open>adid\<close>, \<^verbatim>\<open>dvid\<close> stops its reader for good: the map has no channel for the record, and
  once the reader has scanned the line it is at the send of the record in every state the
  process reaches, whatever the other goroutines do. It cannot move, its file is never
  renamed, and it is never at the end of \<^verbatim>\<open>readFile\<close>.
\<close>

theorem unknown_device_type_blocks:
  assumes "run cfg evs0 (main_init cfg fileNames) = Some s"
    and "readers s fn = Some (R_Scan (line # rest) nSuccess nErrors)"
    and "parseLine (ParseFloat cfg) line fn = (apps, None)"
    and "DevType apps \<notin> set devices"
    and "run cfg (Reader fn # evs) s = Some s'"
  shows "readers s' fn = Some (R_Send apps rest (nSuccess + 1) nErrors) \<and>
         step cfg (Reader fn) s' = None \<and>
         filter (\<lambda>c. fst c = fn) (renameCalls s') = []"
proof -
  from assms(5) obtain t where t: "step cfg (Reader fn) s = Some t" "run cfg evs t = Some s'"
    by (auto split: option.splits)
  from t(1) assms(2,3) have at: "readers t fn = Some (R_Send apps rest (nSuccess + 1) nErrors)"
    by (auto split: if_splits)
  from assms(1) t(1) have "run cfg (evs0 @ [Reader fn]) (main_init cfg fileNames) = Some t"
    by (simp add: run_append)
  from this at assms(4) t(2) show ?thesis
    by (rule blocked_send_forever)
qed

theorem unknown_device_type_blocks_witness:
  "unknown_device_next \<noteq> None \<and> blocked_later \<noteq> None \<and>
   ''abcd'' \<notin> set devices \<and>
   readers (the unknown_device_next) ''a/f.gz'' = Some (R_Scan [sample_line ''abcd''] 0 0) \<and>
   parseLine sample_ParseFloat (sample_line ''abcd'') ''a/f.gz'' = ((sample_record ''abcd'' ''a/f.gz''), None) \<and>
   readers (the blocked_later) ''a/f.gz'' = Some (R_Send (sample_record ''abcd'' ''a/f.gz'') [] 1 0) \<and>
   readers (the blocked_later) ''a/g.gz'' = Some R_Done \<and>
   step unknown_device (Reader ''a/f.gz'') (the blocked_later) = None \<and>
   filter (\<lambda>c. fst c = ''a/f.gz'') (renameCalls (the blocked_later)) = []"
proof -
  have ne0: "unknown_device_next \<noteq> None"
    by (simp add: run_defs)
  then obtain s where s: "unknown_device_next = Some s"
    by blast
  have at: "readers (the unknown_device_next) ''a/f.gz'' = Some (R_Scan [sample_line ''abcd''] 0 0)"
    by (simp add: run_defs)
  have pl: "parseLine sample_ParseFloat (sample_line ''abcd'') ''a/f.gz'' = ((sample_record ''abcd'' ''a/f.gz''), None)"
    by (simp add: decode_defs)
  have ne: "blocked_later \<noteq> None"
    by (simp add: run_defs)
  then obtain s' where s': "blocked_later = Some s'"
    by blast
  have g: "readers (the blocked_later) ''a/g.gz'' = Some R_Done"
    by (simp add: run_defs)
  have d: "''abcd'' \<notin> set devices"
    by (simp add: devices_def)
  from s at have 2: "readers s ''a/f.gz'' = Some (R_Scan [sample_line ''abcd''] 0 0)"
    by simp
  from pl have 3: "parseLine (ParseFloat unknown_device) (sample_line ''abcd'') ''a/f.gz'' = ((sample_record ''abcd'' ''a/f.gz''), None)"
    by simp
  from d have 4: "DevType (sample_record ''abcd'' ''a/f.gz'') \<notin> set devices"
    by simp
  from s s' have 5: "run unknown_device
        (Reader ''a/f.gz'' #
         [Reader ''a/g.gz'', Reader ''a/g.gz'', Reader ''a/g.gz'', Reader ''a/g.gz'',
          Writer ''idfa'' False, Writer ''idfa'' False, Writer ''idfa'' False,
          Reader ''a/g.gz'', Reader ''a/g.gz'', Reader ''a/g.gz'', Reader ''a/g.gz'']) s = Some s'"
    by simp
  from unknown_device_type_blocks [OF s 2 3 4 5]
  have "readers s' ''a/f.gz'' = Some (R_Send (sample_record ''abcd'' ''a/f.gz'') [] 1 0) \<and>
        step unknown_device (Reader ''a/f.gz'') s' = None \<and>
        filter (\<lambda>c. fst c = ''a/f.gz'') (renameCalls s') = []"
    by simp
  with s s' ne0 ne at pl g d show ?thesis
    by simp
qed

lemma filepath_Split_archiveName:
  "filepath_Split (archiveName fn) = (fst (filepath_Split fn) @ ''/'', ''.'' @ snd (filepath_Split fn))"
proof -
  define base where "base = takeWhile (\<lambda>c. c \<noteq> CHR ''/'') (rev fn)"
  define dir where "dir = take (length fn - length base) fn"
  have name: "archiveName fn = dir @ ''/.'' @ rev base"
    by (simp add: archiveName_def filepath_Split_def base_def dir_def Let_def)
  have "rev (dir @ ''/.'' @ rev base) = base @ ''.'' @ (CHR ''/'' # rev dir)"
    by simp
  moreover have "\<forall>c \<in> set (base @ ''.''). c \<noteq> CHR ''/''"
    by (auto simp: base_def dest: set_takeWhileD)
  ultimately have "takeWhile (\<lambda>c. c \<noteq> CHR ''/'') (rev (dir @ ''/.'' @ rev base)) = base @ ''.''"
    using takeWhile_tail [of "\<lambda>c. c \<noteq> CHR ''/''" "CHR ''/''" "base @ ''.''" "rev dir"]
    by simp
  then have "filepath_Split (dir @ ''/.'' @ rev base) = (dir @ ''/'', ''.'' @ rev base)"
    by (simp add: filepath_Split_def Let_def)
  with name show ?thesis
    by (simp add: filepath_Split_def base_def dir_def Let_def)
qed

text \<open>
  C10. Whatever the verdict on a file is, the reader that has it logs it and goes on to
  the one call of \<^verbatim>\<open>os.Rename\<close>, from the file's name to the name in the same directory
  with a dot before the file name (after \<^verbatim>\<open>dir\<close>, which ends with its slash, one more
  slash). A failure of the call is logged and the reader returns all the same, the
  process going on. In every state the process reaches, a file has been the subject of
  one call when its reader has returned and of none before.
\<close>

theorem archived_once:
  "(status s = Running \<and> readers s fn = Some (R_Reconcile nSuccess nErrors nSendingErrors) \<longrightarrow>
      step cfg (Reader fn) s =
        Some (s\<lparr>readers := (readers s)(fn \<mapsto> R_Rename),
                logger := logger s @ [LogDisposition (reconcile nSuccess nErrors nSendingErrors)]\<rparr>)) \<and>
   (status s = Running \<and> readers s fn = Some R_Rename \<longrightarrow>
      step cfg (Reader fn) s =
        Some (s\<lparr>readers := (readers s)(fn \<mapsto> R_Done),
                renameCalls := renameCalls s @ [(fn, archiveName fn, canRename (fsys cfg fn))],
                logger := logger s @ (if canRename (fsys cfg fn) then [] else [LogRename fn]),
                wg := wg s - 1\<rparr>)) \<and>
   (run cfg evs (main_init cfg fileNames) = Some t \<longrightarrow>
      length (filter (\<lambda>c. fst c = fn) (renameCalls t)) = (if readers t fn = Some R_Done then 1 else 0)) \<and>
   filepath_Split (archiveName fn) = (fst (filepath_Split fn) @ ''/'', ''.'' @ snd (filepath_Split fn))"
proof (intro conjI impI)
  assume "status s = Running \<and> readers s fn = Some (R_Reconcile nSuccess nErrors nSendingErrors)"
  then show "step cfg (Reader fn) s =
        Some (s\<lparr>readers := (readers s)(fn \<mapsto> R_Rename),
                logger := logger s @ [LogDisposition (reconcile nSuccess nErrors nSendingErrors)]\<rparr>)"
    by simp
next
  assume "status s = Running \<and> readers s fn = Some R_Rename"
  then show "step cfg (Reader fn) s =
        Some (s\<lparr>readers := (readers s)(fn \<mapsto> R_Done),
                renameCalls := renameCalls s @ [(fn, archiveName fn, canRename (fsys cfg fn))],
                logger := logger s @ (if canRename (fsys cfg fn) then [] else [LogRename fn]),
                wg := wg s - 1\<rparr>)"
    by (simp add: Let_def)
next
  assume "run cfg evs (main_init cfg fileNames) = Some t"
  then show "length (filter (\<lambda>c. fst c = fn) (renameCalls t)) =
      (if readers t fn = Some R_Done then 1 else 0)"
    by (rule run_renames) (simp add: main_init_renames main_init_readers)
next
  show "filepath_Split (archiveName fn) =
      (fst (filepath_Split fn) @ ''/'', ''.'' @ snd (filepath_Split fn))"
    by (rule filepath_Split_archiveName)
qed

theorem archived_once_witness:
  "verdict_reached \<noteq> None \<and> reader_returned \<noteq> None \<and>
   readers (the verdict_reached) ''a/f.gz'' = Some (R_Reconcile 1 0 0) \<and>
   renameCalls (the verdict_reached) = [] \<and>
   map_option readers (step rename_fails (Reader ''a/f.gz'') (the verdict_reached)) = Some [''a/f.gz'' \<mapsto> R_Rename] \<and>
   readers (the reader_returned) ''a/f.gz'' = Some R_Done \<and>
   renameCalls (the reader_returned) = [(''a/f.gz'', ''a//.f.gz'', False)] \<and>
   logger (the reader_returned) = [LogStartReadFile, LogDisposition (reconcile 1 0 0), LogRename ''a/f.gz''] \<and>
   status (the reader_returned) = Running \<and>
   length (filter (\<lambda>c. fst c = ''a/f.gz'') (renameCalls (the reader_returned))) = 1 \<and>
   filepath_Split ''a//.f.gz'' = (''a//'', ''.f.gz'')"
proof -
  have ne0: "verdict_reached \<noteq> None"
    by (simp add: run_defs)
  then obtain s where s: "verdict_reached = Some s"
    by blast
  have rec: "readers (the verdict_reached) ''a/f.gz'' = Some (R_Reconcile 1 0 0)"
    by (simp add: run_defs)
  have run0: "status (the verdict_reached) = Running"
    by (simp add: run_defs)
  have rn0: "renameCalls (the verdict_reached) = []"
    by (simp add: run_defs)
  have rd0: "readers (the verdict_reached) = [''a/f.gz'' \<mapsto> R_Reconcile 1 0 0]"
    by (simp add: run_defs)
  have ne: "reader_returned \<noteq> None"
    by (simp add: run_defs)
  then obtain t where t: "reader_returned = Some t"
    by blast
  have fin: "readers (the reader_returned) ''a/f.gz'' = Some R_Done"
    by (simp add: run_defs)
  have calls: "renameCalls (the reader_returned) = [(''a/f.gz'', ''a//.f.gz'', False)]"
    by (simp add: run_defs archiveName_def filepath_Split_def)
  have log: "logger (the reader_returned) = [LogStartReadFile, LogDisposition (reconcile 1 0 0), LogRename ''a/f.gz'']"
    by (simp add: run_defs)
  have st: "status (the reader_returned) = Running"
    by (simp add: run_defs)
  have an: "archiveName ''a/f.gz'' = ''a//.f.gz''"
    by (simp add: archiveName_def filepath_Split_def)
  have sp: "filepath_Split ''a/f.gz'' = (''a/'', ''f.gz'')"
    by (simp add: filepath_Split_def)
  from archived_once [of s "''a/f.gz''" 1 0 0 "rename_fails"
      "[Reader ''a/f.gz'', Reader ''a/f.gz'', Reader ''a/f.gz'', Reader ''a/f.gz'',
          Reader ''a/f.gz'', Reader ''a/f.gz'', Reader ''a/f.gz'', Reader ''a/f.gz'']"
      "[''a/f.gz'']" t]
    s t rec run0 rd0 fin an sp
  have "map_option readers (step rename_fails (Reader ''a/f.gz'') s) = Some [''a/f.gz'' \<mapsto> R_Rename] \<and>
        length (filter (\<lambda>c. fst c = ''a/f.gz'') (renameCalls t)) = 1 \<and>
        filepath_Split ''a//.f.gz'' = (''a//'', ''.f.gz'')"
    by simp
  with s t ne0 ne rec rn0 fin calls log st show ?thesis
    by simp
qed

lemma step_not_Running: "status s \<noteq> Running \<Longrightarrow> step cfg e s = None"
  by (cases e) simp_all

lemma step_at_Exit:
  assumes "step cfg e s = Some s'" and "readers s fn = Some R_Exit"
  shows "readers s' fn = Some R_Exit"
proof (cases e)
  case (Reader fn')
  show ?thesis
  proof (cases "fn' = fn")
    case True
    with assms Reader show ?thesis by (auto split: if_splits)
  next
    case False
    with assms Reader readFile_step_other [of cfg fn' _ s s' fn] show ?thesis
      by (auto split: if_splits option.splits)
  qed
next
  case (Writer dev fails)
  with assms writeInMemcached_step_readers [of cfg dev fails _ s s'] show ?thesis
    by (auto split: if_splits option.splits)
next
  case MainReturn
  with assms show ?thesis by (auto split: if_splits)
qed

lemma run_at_Exit:
  "run cfg evs s = Some s' \<Longrightarrow> readers s fn = Some R_Exit \<Longrightarrow> readers s' fn = Some R_Exit"
proof (induction evs arbitrary: s)
  case Nil
  then show ?case by simp
next
  case (Cons e evs)
  from Cons.prems(1) obtain t where t: "step cfg e s = Some t" "run cfg evs t = Some s'"
    by (auto split: option.splits)
  from t(1) Cons.prems(2) have "readers t fn = Some R_Exit"
    by (rule step_at_Exit)
  with Cons.IH t(2) show ?case by blast
qed

lemma readFile_step_logger:
  "readFile_step cfg fn r s = Some s' \<Longrightarrow> set (logger s) \<subseteq> set (logger s')"
  by (cases "(cfg, fn, r, s)" rule: readFile_step.cases)
     (auto simp: Let_def split: if_splits option.splits prod.splits)

lemma writeInMemcached_step_logger:
  "writeInMemcached_step cfg dev fails w s = Some s' \<Longrightarrow> set (logger s) \<subseteq> set (logger s')"
  by (cases "(cfg, dev, fails, w, s)" rule: writeInMemcached_step.cases)
     (auto split: if_splits option.splits list.splits)

lemma step_logger:
  assumes "step cfg e s = Some s'"
  shows "set (logger s) \<subseteq> set (logger s')"
proof (cases e)
  case (Reader fn)
  with assms obtain r where "readFile_step cfg fn r s = Some s'"
    by (auto split: if_splits option.splits)
  then show ?thesis by (rule readFile_step_logger)
next
  case (Writer dev fails)
  with assms obtain w where "writeInMemcached_step cfg dev fails w s = Some s'"
    by (auto split: if_splits option.splits)
  then show ?thesis by (rule writeInMemcached_step_logger)
next
  case MainReturn
  with assms show ?thesis by (auto split: if_splits)
qed

lemma run_logger:
  "run cfg evs s = Some s' \<Longrightarrow> set (logger s) \<subseteq> set (logger s')"
proof (induction evs arbitrary: s)
  case Nil
  then show ?case by simp
next
  case (Cons e evs)
  from Cons.prems obtain t where t: "step cfg e s = Some t" "run cfg evs t = Some s'"
    by (auto split: option.splits)
  from t(1) have "set (logger s) \<subseteq> set (logger t)"
    by (rule step_logger)
  moreover from t(2) have "set (logger t) \<subseteq> set (logger s')"
    by (rule Cons.IH)
  ultimately show ?case by blast
qed

text \<open>
  C3, as the claim states it, fails: with the file \<^verbatim>\<open>a/f.gz\<close> that cannot be opened and the
  file \<^verbatim>\<open>a/g.gz\<close> whose reader has put a record into the channel of \<^verbatim>\<open>idfa\<close>, the
  failure to open ends the process with status 1. The reader of \<^verbatim>\<open>a/g.gz\<close> and the
  writer of \<^verbatim>\<open>idfa\<close>, which both could move before, move no more.
\<close>

theorem open_failure_counterexample:
  "step open_fails (Reader ''a/g.gz'') (the other_file_queued) \<noteq> None \<and>
   step open_fails (Writer ''idfa'' False) (the other_file_queued) \<noteq> None \<and>
   after_open_failure \<noteq> None \<and>
   status (the after_open_failure) = Exited 1 \<and>
   readers (the after_open_failure) ''a/g.gz'' = Some (R_Scan [] 1 0) \<and>
   channels (the after_open_failure) ''idfa'' = Some [(sample_record ''idfa'' ''a/g.gz'')] \<and>
   step open_fails (Reader ''a/g.gz'') (the after_open_failure) = None \<and>
   step open_fails (Writer ''idfa'' False) (the after_open_failure) = None"
  by (simp add: run_defs)

text \<open>
  C3, amended. When a file cannot be opened or decompressed, its reader is in
  \<^verbatim>\<open>logger.Fatal\<close>: its step writes the message, the process still running, and leaves the
  reader before \<^verbatim>\<open>os.Exit(1)\<close>. Whatever the goroutines do from there, the other readers and
  the writers among them, the reader is still before that call and the message is in the
  log; while the process runs, the next step of the reader ends it with status 1, and
  after that no reader and no writer moves.
\<close>

theorem open_failure_exits:
  assumes "status s = Running"
    and "readers s fn = Some R_Open \<and> \<not> canOpen (fsys cfg fn) \<or>
         readers s fn = Some R_Gzip \<and> \<not> canGunzip (fsys cfg fn)"
  shows "step cfg (Reader fn) s =
           Some (s\<lparr>readers := (readers s)(fn \<mapsto> R_Exit), logger := logger s @ [LogFatal fn]\<rparr>) \<and>
         (run cfg (Reader fn # evs) s = Some s' \<longrightarrow>
            readers s' fn = Some R_Exit \<and>
            LogFatal fn \<in> set (logger s') \<and>
            (status s' = Running \<longrightarrow> step cfg (Reader fn) s' = Some (s'\<lparr>status := Exited 1\<rparr>)) \<and>
            step cfg e (s'\<lparr>status := Exited 1\<rparr>) = None)"
proof (intro conjI impI)
  let ?t = "s\<lparr>readers := (readers s)(fn \<mapsto> R_Exit), logger := logger s @ [LogFatal fn]\<rparr>"
  from assms show 1: "step cfg (Reader fn) s = Some ?t"
    by auto
  assume "run cfg (Reader fn # evs) s = Some s'"
  with 1 have r: "run cfg evs ?t = Some s'"
    by simp
  from r show at: "readers s' fn = Some R_Exit"
    by (rule run_at_Exit) simp
  from run_logger [OF r] show "LogFatal fn \<in> set (logger s')"
    by auto
  show "step cfg e (s'\<lparr>status := Exited 1\<rparr>) = None"
    by (rule step_not_Running) simp
  assume "status s' = Running"
  with at show "step cfg (Reader fn) s' = Some (s'\<lparr>status := Exited 1\<rparr>)"
    by simp
qed

theorem open_failure_exits_witness:
  "other_file_queued \<noteq> None \<and> between_log_and_exit \<noteq> None \<and>
   status (the other_file_queued) = Running \<and>
   readers (the other_file_queued) ''a/f.gz'' = Some R_Open \<and>
   \<not> canOpen (fsys open_fails ''a/f.gz'') \<and>
   map_option status (step open_fails (Reader ''a/f.gz'') (the other_file_queued)) = Some Running \<and>
   map_option logger (step open_fails (Reader ''a/f.gz'') (the other_file_queued))
     = Some [LogStartReadFile, LogStartReadFile, LogFatal ''a/f.gz''] \<and>
   writers (the other_file_queued) ''idfa'' = Some W_Recv \<and>
   readers (the other_file_queued) ''a/g.gz'' = Some (R_Scan [] 1 0) \<and>
   writers (the between_log_and_exit) ''idfa'' = Some (W_Set (sample_record ''idfa'' ''a/g.gz'') 0 False) \<and>
   readers (the between_log_and_exit) ''a/g.gz'' = Some (R_Stats 1 0) \<and>
   readers (the between_log_and_exit) ''a/f.gz'' = Some R_Exit \<and>
   LogFatal ''a/f.gz'' \<in> set (logger (the between_log_and_exit)) \<and>
   status (the between_log_and_exit) = Running \<and>
   step open_fails (Reader ''a/f.gz'') (the between_log_and_exit)
     = Some ((the between_log_and_exit)\<lparr>status := Exited 1\<rparr>) \<and>
   step open_fails (Writer ''idfa'' False) ((the between_log_and_exit)\<lparr>status := Exited 1\<rparr>) = None"
proof -
  have ne0: "other_file_queued \<noteq> None"
    by (simp add: run_defs)
  then obtain s where s: "other_file_queued = Some s"
    by blast
  have st: "status (the other_file_queued) = Running"
    by (simp add: run_defs)
  have rd: "readers (the other_file_queued) ''a/f.gz'' = Some R_Open"
    by (simp add: run_defs)
  have lg: "logger (the other_file_queued) = [LogStartReadFile, LogStartReadFile]"
    by (simp add: run_defs)
  have w0: "writers (the other_file_queued) ''idfa'' = Some W_Recv"
    by (simp add: run_defs)
  have g0: "readers (the other_file_queued) ''a/g.gz'' = Some (R_Scan [] 1 0)"
    by (simp add: run_defs)
  have no: "\<not> canOpen (fsys open_fails ''a/f.gz'')"
    by simp
  have ne: "between_log_and_exit \<noteq> None"
    by (simp add: run_defs)
  then obtain s' where s': "between_log_and_exit = Some s'"
    by blast
  have w1: "writers (the between_log_and_exit) ''idfa'' = Some (W_Set (sample_record ''idfa'' ''a/g.gz'') 0 False)"
    by (simp add: run_defs)
  have g1: "readers (the between_log_and_exit) ''a/g.gz'' = Some (R_Stats 1 0)"
    by (simp add: run_defs)
  have st1: "status (the between_log_and_exit) = Running"
    by (simp add: run_defs)
  from s st have 1: "status s = Running"
    by simp
  from s rd no have 2: "readers s ''a/f.gz'' = Some R_Open \<and> \<not> canOpen (fsys open_fails ''a/f.gz'') \<or>
         readers s ''a/f.gz'' = Some R_Gzip \<and> \<not> canGunzip (fsys open_fails ''a/f.gz'')"
    by simp
  have "run open_fails
          ([Reader ''a/g.gz'', Reader ''a/g.gz'', Reader ''a/g.gz'', Reader ''a/g.gz''] @
           [Reader ''a/f.gz'', Writer ''idfa'' False, Reader ''a/g.gz''])
          (main_init open_fails [''a/f.gz'', ''a/g.gz''])
      = (case other_file_queued of
           None \<Rightarrow> None
         | Some t \<Rightarrow> run open_fails [Reader ''a/f.gz'', Writer ''idfa'' False, Reader ''a/g.gz''] t)"
    by (rule run_append)
  then have "between_log_and_exit
      = (case other_file_queued of
           None \<Rightarrow> None
         | Some t \<Rightarrow> run open_fails [Reader ''a/f.gz'', Writer ''idfa'' False, Reader ''a/g.gz''] t)"
    by (simp only: append.simps)
  then have "Some s'
      = (case Some s of
           None \<Rightarrow> None
         | Some t \<Rightarrow> run open_fails [Reader ''a/f.gz'', Writer ''idfa'' False, Reader ''a/g.gz''] t)"
    by (simp only: s s')
  then have 3: "run open_fails (Reader ''a/f.gz'' # [Writer ''idfa'' False, Reader ''a/g.gz'']) s = Some s'"
    by (simp only: option.case)
  from s' st1 have 4: "status s' = Running"
    by simp
  from s lg have 5: "logger s = [LogStartReadFile, LogStartReadFile]"
    by simp
  note exits = open_failure_exits [OF 1 2, of "[Writer ''idfa'' False, Reader ''a/g.gz'']" s' "Writer ''idfa'' False"]
  from exits have a: "step open_fails (Reader ''a/f.gz'') s =
      Some (s\<lparr>readers := (readers s)(''a/f.gz'' \<mapsto> R_Exit), logger := logger s @ [LogFatal ''a/f.gz'']\<rparr>)"
    by (rule conjunct1)
  from exits 3 have b: "readers s' ''a/f.gz'' = Some R_Exit \<and>
      LogFatal ''a/f.gz'' \<in> set (logger s') \<and>
      (status s' = Running \<longrightarrow> step open_fails (Reader ''a/f.gz'') s' = Some (s'\<lparr>status := Exited 1\<rparr>)) \<and>
      step open_fails (Writer ''idfa'' False) (s'\<lparr>status := Exited 1\<rparr>) = None"
    by blast
  from b 4 have c: "step open_fails (Reader ''a/f.gz'') s' = Some (s'\<lparr>status := Exited 1\<rparr>)"
    by blast
  have d: "map_option status (step open_fails (Reader ''a/f.gz'') s) = Some Running"
    by (simp only: a) (simp add: 1)
  have e: "map_option logger (step open_fails (Reader ''a/f.gz'') s)
          = Some [LogStartReadFile, LogStartReadFile, LogFatal ''a/f.gz'']"
    by (simp only: a) (simp add: 5)
  from b c d e
  have "map_option status (step open_fails (Reader ''a/f.gz'') s) = Some Running \<and>
        map_option logger (step open_fails (Reader ''a/f.gz'') s)
          = Some [LogStartReadFile, LogStartReadFile, LogFatal ''a/f.gz''] \<and>
        readers s' ''a/f.gz'' = Some R_Exit \<and>
        LogFatal ''a/f.gz'' \<in> set (logger s') \<and>
        step open_fails (Reader ''a/f.gz'') s' = Some (s'\<lparr>status := Exited 1\<rparr>) \<and>
        step open_fails (Writer ''idfa'' False) (s'\<lparr>status := Exited 1\<rparr>) = None"
    by blast
  with s s' ne0 ne st rd no w0 g0 w1 g1 st1 show ?thesis
    by simp
qed

text \<open>
  C1, as the claim states it, fails: the reader does not wait for the deliveries of its
  file. With one file of one line, the reader has read and removed the entry of the file
  (it goes on with 0 failures) while the record of that line is still in the channel of
  \<^verbatim>\<open>idfa\<close>, its delivery not even begun, the writer being at its receive. The reader
  then logs the acceptable rate 0, and after that the three calls of \<^verbatim>\<open>Set\<close> for the
  record fail.
\<close>

theorem stats_read_before_delivery_counterexample:
  "count_taken \<noteq> None \<and>
   readers (the count_taken) ''a/f.gz'' = Some (R_Reconcile 1 0 0) \<and>
   channels (the count_taken) ''idfa'' = Some [(sample_record ''idfa'' ''a/f.gz'')] \<and>
   writers (the count_taken) ''idfa'' = Some W_Recv \<and>
   setCalls (the count_taken) = [] \<and>
   verdict_before_failures \<noteq> None \<and>
   logger (the verdict_before_failures) = [LogStartReadFile, LogDisposition (Acceptable (Finite 0))] \<and>
   setCalls (the verdict_before_failures) = [(''idfa'', ''idfa:d1'', True), (''idfa'', ''idfa:d1'', True), (''idfa'', ''idfa:d1'', True)] \<and>
   writers (the verdict_before_failures) ''idfa'' = Some (W_Stats (sample_record ''idfa'' ''a/f.gz'') True)"
  by (simp add: run_defs reconcile_def NormalErrRate_value float_defs)

text \<open>
  C1, amended. The reader of a file reads and removes the entry of the file as soon as
  the scan has ended, whatever the channels hold and wherever the writers are: its two
  next steps can always be taken, and the number of failures it goes on with is the
  entry of the file at that moment, 0 when there is none.
\<close>

theorem stats_read_at_end_of_scan:
  assumes "status s = Running"
    and "readers s fn = Some (R_Scan [] nSuccess nErrors)"
  shows "run cfg [Reader fn, Reader fn] s =
           Some (s\<lparr>readers := (readers s)(fn \<mapsto> R_Reconcile nSuccess nErrors
                       (case stats s of None \<Rightarrow> 0
                        | Some m \<Rightarrow> (case m fn of None \<Rightarrow> 0 | Some n \<Rightarrow> n))),
                   logger := logger s @ (if scanFails (fsys cfg fn) then [LogScannerError] else []),
                   stats := (case stats s of None \<Rightarrow> None | Some m \<Rightarrow> Some (m(fn := None)))\<rparr>)"
  using assms by (simp add: TakeAndClear_def split: option.splits)

theorem stats_read_at_end_of_scan_witness:
  "scan_ended \<noteq> None \<and>
   status (the scan_ended) = Running \<and>
   readers (the scan_ended) ''a/f.gz'' = Some (R_Scan [] 1 0) \<and>
   channels (the scan_ended) ''idfa'' = Some [(sample_record ''idfa'' ''a/f.gz'')] \<and>
   map_option (\<lambda>t. readers t ''a/f.gz'') (run one_file [Reader ''a/f.gz'', Reader ''a/f.gz''] (the scan_ended))
     = Some (Some (R_Reconcile 1 0 0)) \<and>
   map_option (\<lambda>t. channels t ''idfa'') (run one_file [Reader ''a/f.gz'', Reader ''a/f.gz''] (the scan_ended))
     = Some (Some [(sample_record ''idfa'' ''a/f.gz'')])"
proof -
  have ne0: "scan_ended \<noteq> None"
    by (simp add: run_defs)
  then obtain s where s: "scan_ended = Some s"
    by blast
  have st: "status (the scan_ended) = Running"
    by (simp add: run_defs)
  have rd: "readers (the scan_ended) ''a/f.gz'' = Some (R_Scan [] 1 0)"
    by (simp add: run_defs)
  have ch: "channels (the scan_ended) ''idfa'' = Some [(sample_record ''idfa'' ''a/f.gz'')]"
    by (simp add: run_defs)
  have nil: "stats (the scan_ended) = None"
    by (simp add: run_defs)
  from s st have 1: "status s = Running"
    by simp
  from s rd have 2: "readers s ''a/f.gz'' = Some (R_Scan [] 1 0)"
    by simp
  from stats_read_at_end_of_scan [OF 1 2, of one_file] s ch nil
  have "map_option (\<lambda>t. readers t ''a/f.gz'') (run one_file [Reader ''a/f.gz'', Reader ''a/f.gz''] s)
          = Some (Some (R_Reconcile 1 0 0)) \<and>
        map_option (\<lambda>t. channels t ''idfa'') (run one_file [Reader ''a/f.gz'', Reader ''a/f.gz''] s)
          = Some (Some [(sample_record ''idfa'' ''a/f.gz'')])"
    by simp
  with s ne0 st rd ch show ?thesis
    by simp
qed

text \<open>
  C5. The retry loop calls \<^verbatim>\<open>Set\<close> at most \<^verbatim>\<open>maxRetry\<close> times and stops at the first
  success: with \<^verbatim>\<open>maxRetry\<close> 3, two failures and a success are three calls, and the
  writer is back at its receive with nothing recorded. But a record whose three calls
  all fail is not counted once for its file: the increment meets the nil map that \<^verbatim>\<open>main\<close>
  has passed, and the process ends with a panic, the map still nil.
\<close>

theorem exhausted_retries_panic:
  "third_attempt_succeeds \<noteq> None \<and>
   setCalls (the third_attempt_succeeds) = [(''idfa'', ''idfa:d1'', True), (''idfa'', ''idfa:d1'', True), (''idfa'', ''idfa:d1'', False)] \<and>
   writers (the third_attempt_succeeds) ''idfa'' = Some W_Recv \<and>
   status (the third_attempt_succeeds) = Running \<and>
   stats (the third_attempt_succeeds) = None \<and>
   all_attempts_fail \<noteq> None \<and>
   setCalls (the all_attempts_fail) = [(''idfa'', ''idfa:d1'', True), (''idfa'', ''idfa:d1'', True), (''idfa'', ''idfa:d1'', True)] \<and>
   status (the all_attempts_fail) = Panicked \<and>
   stats (the all_attempts_fail) = None"
  by (simp add: run_defs)

end
